theory Spec2Isabelle
  imports Main
begin

section \<open>JavaScript values and errors\<close>

text \<open>
  The library (lib/index.js) is dynamically typed. An argument whose type the code tests
  at run time is a \<open>jsval\<close>; the parameter \<open>'o\<close> is what an object carries.
  Numbers are modelled as integers, strings as lists of characters (ASCII).
\<close>

datatype 'o jsval = JUndefined | JNull | JBool bool | JNum int | JStr string | JObj 'o

fun typeof :: "'o jsval \<Rightarrow> string" where
  "typeof JUndefined = ''undefined''"
| "typeof JNull = ''object''"
| "typeof (JBool b) = ''boolean''"
| "typeof (JNum n) = ''number''"
| "typeof (JStr s) = ''string''"
| "typeof (JObj x) = ''object''"

text \<open>Truthiness, as tested by \<open>!x\<close>, \<open>x || d\<close> and \<open>x ? a : b\<close>.\<close>

fun truthy :: "'o jsval \<Rightarrow> bool" where
  "truthy JUndefined = False"
| "truthy JNull = False"
| "truthy (JBool b) = b"
| "truthy (JNum n) = (n \<noteq> 0)"
| "truthy (JStr s) = (s \<noteq> [])"
| "truthy (JObj x) = True"

text \<open>The \<open>length\<close> property: only a string has one here (\<open>None\<close> is undefined).\<close>

fun js_length :: "'o jsval \<Rightarrow> nat option" where
  "js_length (JStr s) = Some (length s)"
| "js_length v = None"

fun digitsOf :: "nat \<Rightarrow> string" where
  "digitsOf n = (if n < 10 then [char_of (48 + n)]
                 else digitsOf (n div 10) @ [char_of (48 + n mod 10)])"

declare digitsOf.simps [simp del]

text \<open>
  String conversion, as done by \<open>"..." + x\<close>. An object is a plain object (an array
  or a function prints differently), and a number is printed in decimal digits, as
  JavaScript does below \<open>1e21\<close>.
\<close>

fun js_toString :: "'o jsval \<Rightarrow> string" where
  "js_toString JUndefined = ''undefined''"
| "js_toString JNull = ''null''"
| "js_toString (JBool b) = (if b then ''true'' else ''false'')"
| "js_toString (JNum n) = (if n < 0 then ''-'' @ digitsOf (nat (- n)) else digitsOf (nat n))"
| "js_toString (JStr s) = s"
| "js_toString (JObj x) = ''[object Object]''"

text \<open>
  Errors. \<open>Error m\<close> is \<open>new Error(m)\<close> built by the library; \<open>ReferenceError x\<close> is what
  the engine throws when the undeclared identifier \<open>x\<close> is read; \<open>StoreError m\<close> is the
  error object the store client hands to the bulk callback, \<open>m\<close> its \<open>message\<close> property
  if it has one; \<open>FsError code path\<close> is an error of the file stream;
  \<open>DownloadError d\<close> is a rejection or stream error of the download collaborator.
\<close>

datatype js_error =
    Error string
  | TypeError string
  | ReferenceError string
  | StoreError "string option"
  | FsError string string
  | DownloadError string

text \<open>
  How an operation ends when it does not complete: \<open>Failed e\<close> is \<open>cb(e)\<close>, the error
  handed to the caller's callback; \<open>Thrown e\<close> is an exception that leaves the function
  or handler (the callback is not invoked); \<open>Unhandled e\<close> is an error event of a stream
  on which the library registered no listener (the callback is not invoked).
\<close>

datatype halt = Failed js_error | Thrown js_error | Unhandled js_error

text \<open>The apostrophe, for the quoted parts of error messages.\<close>

abbreviation (input) sq :: string where
  "sq \<equiv> [CHR 0x27]"

text \<open>\<open>s.indexOf(pat) !== -1\<close>\<close>

fun containsStr :: "string \<Rightarrow> string \<Rightarrow> bool" where
  "containsStr pat [] = (pat = [])"
| "containsStr pat (c # cs) = (take (length pat) (c # cs) = pat \<or> containsStr pat cs)"

text \<open>\<open>s.split(sep)\<close> for a one-character separator.\<close>

fun split_acc :: "char \<Rightarrow> string \<Rightarrow> string \<Rightarrow> string list" where
  "split_acc sep cur [] = [cur]"
| "split_acc sep cur (c # cs) =
     (if c = sep then cur # split_acc sep [] cs else split_acc sep (cur @ [c]) cs)"

definition split :: "char \<Rightarrow> string \<Rightarrow> string list" where
  "split sep s = split_acc sep [] s"

text \<open>\<open>xs.join(",")\<close> on an array of strings.\<close>

fun join :: "string \<Rightarrow> string list \<Rightarrow> string" where
  "join sep [] = []"
| "join sep [x] = x"
| "join sep (x # y # ys) = x @ sep @ join sep (y # ys)"

definition toUpperChar :: "char \<Rightarrow> char" where
  "toUpperChar c = (let n = (of_char c :: nat) in
                    if 97 \<le> n \<and> n \<le> 122 then char_of (n - 32) else c)"

definition toLocaleUpperCase :: "string \<Rightarrow> string" where
  "toLocaleUpperCase s = map toUpperChar s"

section \<open>Bulk entries and the store client\<close>

text \<open>
  An element of the bulk body: the directive \<open>{index: {_index, _type, _id}}\<close> or the
  document \<open>lineOutput\<close>, an object kept as its list of properties in insertion order.
  A property read out of range is undefined (\<open>None\<close>).
\<close>

datatype entry =
    Directive string string "string option"
  | Document "(string \<times> string option) list"

datatype bulk_reply = Ack | Reject "string option"

text \<open>
  \<open>client.bulk({body: output}, fn)\<close>: the reply may depend on the bodies committed
  before (first argument) and on the body (second argument). \<open>Ack\<close> is \<open>fn(null, ...)\<close>,
  \<open>Reject m\<close> is \<open>fn(err)\<close> with \<open>err.message = m\<close>.
\<close>

type_synonym client = "entry list list \<Rightarrow> entry list \<Rightarrow> bulk_reply"

section \<open>Module state \<open>local\<close> and the setters\<close>

record local =
  client :: "client option"
  geonameDownloadUrl :: string
  elasticIndex :: string
  elasticType :: string
  elasticPath :: "string option"
  dataPath :: string

text \<open>The initial module state; \<open>tmpdir\<close> is what \<open>os.tmpdir()\<close> returns.\<close>

definition local_init :: "string \<Rightarrow> local" where
  "local_init tmpdir =
     \<lparr> client = None,
       geonameDownloadUrl = ''http://download.geonames.org/export/dump/%s'',
       elasticIndex = ''geonames'',
       elasticType = ''geoname'',
       elasticPath = None,
       dataPath = tmpdir \<rparr>"

definition geonameLocationMapper :: "(string \<times> nat) list" where
  "geonameLocationMapper =
     [(''geonameId'', 0), (''name'', 1), (''asciiName'', 2), (''alternateNames'', 3),
      (''latitude'', 4), (''longitude'', 5), (''featureClass'', 6), (''featureCode'', 7),
      (''country'', 8), (''cc2'', 9), (''admin1'', 10), (''admin2'', 11), (''admin3'', 12),
      (''admin4'', 13), (''population'', 14), (''elevation'', 15), (''dem'', 16),
      (''timezone'', 17), (''modDate'', 18)]"

definition setDataPath :: "'o jsval \<Rightarrow> local \<Rightarrow> js_error + local" where
  "setDataPath pathParam l =
     (case pathParam of
        JStr p \<Rightarrow> Inr (l\<lparr>dataPath := p\<rparr>)
      | _ \<Rightarrow> Inl (Error ''Path is not a valid string''))"

definition setElasticPath :: "'o jsval \<Rightarrow> local \<Rightarrow> js_error + local" where
  "setElasticPath pathParam l =
     (case pathParam of
        JStr p \<Rightarrow>
          (let elasticPathV = split CHR ''/'' p in
           if length elasticPathV \<noteq> 2
             then Inl (Error (''elasticPath must be in the form of '' @ sq @ ''index/type'' @ sq))
           else if length (elasticPathV ! 0) < 1 \<or> length (elasticPathV ! 1) < 1
             then Inl (Error ''Index or Type should not be empty'')
           else Inr (l\<lparr>elasticIndex := elasticPathV ! 0,
                       elasticPath := Some (elasticPathV ! 1)\<rparr>))
      | _ \<Rightarrow> Inl (Error ''elasticPath is not a valid string''))"

text \<open>
  \<open>setElasticClient\<close> accepts whatever has \<open>typeof\<close> \<open>'object'\<close>: a client object, or
  \<open>null\<close>.
\<close>

definition setElasticClient :: "client jsval \<Rightarrow> local \<Rightarrow> js_error + local" where
  "setElasticClient dbClient l =
     (if typeof dbClient \<noteq> ''object'' then Inl (Error ''elasticClient is not a valid object'')
      else Inr (l\<lparr>client := (case dbClient of JObj c \<Rightarrow> Some c | _ \<Rightarrow> None)\<rparr>))"

text \<open>
  \<open>config(data)\<close>: the keys of \<open>data\<close> in order. A setter that throws ends the loop;
  what the setters before it have written stays, so the result is the error thrown,
  if any, and the module state.
\<close>

fun config :: "(string \<times> client jsval) list \<Rightarrow> local \<Rightarrow> js_error option \<times> local" where
  "config [] l = (None, l)"
| "config ((key, v) # data) l =
     (case (if key = ''elasticPath'' then setElasticPath v l
            else if key = ''elasticClient'' then setElasticClient v l
            else if key = ''dataPath'' then setDataPath v l
            else Inl (Error (''Unknown config key '' @ sq @ key @ sq)))
      of Inl e \<Rightarrow> (Some e, l)
       | Inr l' \<Rightarrow> config data l')"

section \<open>addFileToElastic\<close>

record options =
  bufferRecords :: "int option"
  classFilters :: "string list option"
  bufferAdded :: bool

text \<open>
  The mutable variables of one invocation, and what the invocation did to the outside:
  \<open>bulkCalls\<close> are the bodies passed to \<open>client.bulk\<close>, \<open>hookCalls\<close> the arguments passed
  to the \<open>bufferAdded\<close> hook, \<open>opened\<close> the files opened (directory and file name), each in
  order.
\<close>

record pipeline =
  outputV :: "entry list"
  recordsProcessed :: nat
  recordsAdded :: nat
  bulkCalls :: "entry list list"
  hookCalls :: "nat list"
  opened :: "(string \<times> string) list"

definition pipeline_init :: pipeline where
  "pipeline_init = \<lparr> outputV = [], recordsProcessed = 0, recordsAdded = 0,
                      bulkCalls = [], hookCalls = [], opened = [] \<rparr>"

text \<open>The constants of one invocation, as the closures capture them.\<close>

record ctx =
  testMode :: bool
  localV :: local
  clientV :: "client option"
  featureClassFilters :: "string list option"
  fnBufferComplete :: bool
  bufferRecordsV :: int

record counters =
  processed :: nat
  added :: nat

text \<open>\<open>record[i]\<close>\<close>

definition fieldAt :: "string list \<Rightarrow> nat \<Rightarrow> string option" where
  "fieldAt r i = (if i < length r then Some (r ! i) else None)"

text \<open>\<open>record[local.geonameLocationMapper[key]]\<close>\<close>

definition mapped :: "string list \<Rightarrow> string \<Rightarrow> string option" where
  "mapped r key = (case map_of geonameLocationMapper key of None \<Rightarrow> None | Some i \<Rightarrow> fieldAt r i)"

definition js_str :: "string option \<Rightarrow> string" where
  "js_str v = (case v of None \<Rightarrow> ''undefined'' | Some s \<Rightarrow> s)"

text \<open>
  The error branch of the bulk callback. With a non-empty message that contains one of
  the two marker texts, building \<open>errorMessage\<close> reads \<open>elasicIndex\<close> or \<open>elasicType\<close>,
  identifiers declared nowhere, and the read throws; otherwise \<open>errorMessage\<close> stays
  empty and \<open>cb(err)\<close> gets the store's error.
\<close>

definition bulkError :: "string option \<Rightarrow> halt" where
  "bulkError msg =
     (case msg of
        None \<Rightarrow> Failed (StoreError msg)
      | Some m \<Rightarrow>
          if m = [] then Failed (StoreError msg)
          else
            (let isIndex = containsStr ''index is missing'' m;
                 isType = containsStr ''type is missing'' m
             in if isIndex \<or> isType then
                  (if isIndex then Thrown (ReferenceError ''elasicIndex'')
                   else Thrown (ReferenceError ''elasicType''))
                else Failed (StoreError msg)))"

definition helperAddBuffer :: "ctx \<Rightarrow> pipeline \<Rightarrow> (halt \<times> pipeline) + pipeline" where
  "helperAddBuffer c s =
     (if \<not> testMode c \<and> client (localV c) = None
        then Inl (Thrown (Error ''No db connection to elastic''), s)
      else case clientV c of
        None \<Rightarrow> Inl (Thrown (TypeError (''Cannot read property '' @ sq @ ''bulk'' @ sq @ '' of null'')), s)
      | Some bulk \<Rightarrow>
          (let reply = bulk (bulkCalls s) (outputV s);
               s1 = s\<lparr>bulkCalls := bulkCalls s @ [outputV s]\<rparr>;
               s2 = (if fnBufferComplete c
                     then s1\<lparr>hookCalls := hookCalls s1 @ [recordsProcessed s1]\<rparr> else s1)
           in case reply of
                Reject msg \<Rightarrow> Inl (bulkError msg, s2)
              | Ack \<Rightarrow> Inr (s2\<lparr>outputV := []\<rparr>)))"

text \<open>The loop over \<open>featureClassFilters\<close>: \<open>fc\<close> is the record's feature class.\<close>

fun filterLoop :: "string list \<Rightarrow> string option \<Rightarrow> bool \<Rightarrow> bool" where
  "filterLoop [] fc isFiltered = isFiltered"
| "filterLoop (f # fs) fc isFiltered =
     filterLoop fs fc (if fc = Some f then False else isFiltered)"

definition isFilteredOut :: "string list option \<Rightarrow> string list \<Rightarrow> bool" where
  "isFilteredOut filters r =
     (case filters of
        None \<Rightarrow> False
      | Some fs \<Rightarrow> if length fs \<noteq> 0 then filterLoop fs (mapped r ''featureClass'') True
                   else False)"

definition lineOutput :: "string list \<Rightarrow> (string \<times> string option) list" where
  "lineOutput r =
     map (\<lambda>(key, i). (key, fieldAt r i)) geonameLocationMapper
     @ [(''location'', Some (js_str (mapped r ''latitude'') @ '','' @ js_str (mapped r ''longitude'')))]"

definition directive :: "local \<Rightarrow> string list \<Rightarrow> entry" where
  "directive l r = Directive (elasticIndex l) (elasticType l) (mapped r ''geonameId'')"

text \<open>The transform handler, run on one parsed record.\<close>

definition transformer :: "ctx \<Rightarrow> string list \<Rightarrow> pipeline \<Rightarrow> (halt \<times> pipeline) + pipeline" where
  "transformer c r s0 =
     (let s = s0\<lparr>recordsProcessed := recordsProcessed s0 + 1\<rparr> in
      if isFilteredOut (featureClassFilters c) r then Inr s
      else
        (let s1 = s\<lparr>outputV := outputV s @ [directive (localV c) r]\<rparr>;
             s2 = s1\<lparr>recordsAdded := recordsAdded s1 + 1\<rparr>;
             s3 = s2\<lparr>outputV := outputV s2 @ [Document (lineOutput r)]\<rparr>
         in if int (length (outputV s3)) = bufferRecordsV c then helperAddBuffer c s3
            else Inr s3))"

text \<open>
  The stream hands the records to the handler one at a time (\<open>parallel: 1\<close>), the next
  one only after the handler has called \<open>callback()\<close>; after a failed commit it never
  does, so no further record is processed.
\<close>

fun transformAll :: "ctx \<Rightarrow> string list list \<Rightarrow> pipeline \<Rightarrow> (halt \<times> pipeline) + pipeline" where
  "transformAll c [] s = Inr s"
| "transformAll c (r # rs) s =
     (case transformer c r s of
        Inl h \<Rightarrow> Inl h
      | Inr s' \<Rightarrow> transformAll c rs s')"

definition result :: "pipeline \<Rightarrow> counters" where
  "result s = \<lparr> processed = recordsProcessed s, added = recordsAdded s \<rparr>"

text \<open>The handler of the transformer's \<open>finish\<close> event.\<close>

definition onFinish :: "ctx \<Rightarrow> pipeline \<Rightarrow> (halt + counters) \<times> pipeline" where
  "onFinish c s =
     (if length (outputV s) \<noteq> 0 then
        (case helperAddBuffer c s of
           Inl (h, s') \<Rightarrow> (Inl h, s')
         | Inr s' \<Rightarrow> (Inr (result s'), s'))
      else (Inr (result s), s))"

text \<open>
  What opening and parsing \<open>path.join(dataPath, name)\<close> gives: an error of the read
  stream (it has a listener, unlike the parser, whose errors are not modelled), or the
  records of the file in order.
\<close>

datatype source_file = ReadError js_error | Content "string list list"

type_synonym filesystem = "string \<Rightarrow> string \<Rightarrow> source_file"

definition invalidCountryCode :: "'o jsval \<Rightarrow> bool" where
  "invalidCountryCode countryCode =
     (\<not> truthy countryCode \<or> typeof countryCode \<noteq> ''string'' \<or> js_length countryCode \<noteq> Some 2)"

text \<open>The listener on the input stream's \<open>error\<close> event.\<close>

definition inputError :: "string \<Rightarrow> js_error \<Rightarrow> js_error" where
  "inputError countryCode err =
     (case err of
        FsError code path \<Rightarrow>
          if code = ''ENOENT''
          then Error (''Missing datafile for '' @ countryCode @ '' at '' @ path)
          else err
      | _ \<Rightarrow> err)"

definition mockClient :: client where
  "mockClient = (\<lambda>committed body. Ack)"

text \<open>
  The variables the handlers close over: \<open>bufferRecords\<close> defaults to 1000 when the
  option is absent or falsy and is then doubled; in test mode the client is the mock.
\<close>

definition closure :: "local \<Rightarrow> bool \<Rightarrow> options \<Rightarrow> ctx" where
  "closure l testModeV opts =
     \<lparr> testMode = testModeV,
       localV = l,
       clientV = (if testModeV then Some mockClient else client l),
       featureClassFilters = classFilters opts,
       fnBufferComplete = bufferAdded opts,
       bufferRecordsV =
         (case bufferRecords opts of
            None \<Rightarrow> 1000
          | Some n \<Rightarrow> if n \<noteq> 0 then n else 1000) * 2 \<rparr>"

text \<open>\<open>input.pipe(parser).pipe(transformer)\<close> on a readable file, up to the callback.\<close>

definition pipeRecords ::
  "ctx \<Rightarrow> string list list \<Rightarrow> pipeline \<Rightarrow> (halt + counters) \<times> pipeline" where
  "pipeRecords c records s0 =
     (case transformAll c records s0 of
        Inl (h, s) \<Rightarrow> (Inl h, s)
      | Inr s \<Rightarrow> onFinish c s)"

definition addFileToElastic ::
  "local \<Rightarrow> filesystem \<Rightarrow> 'o jsval \<Rightarrow> options \<Rightarrow> (halt + counters) \<times> pipeline" where
  "addFileToElastic l fs countryCode opts =
     (let testModeV = (typeof countryCode = ''string'' \<and> js_toString countryCode = ''00'') in
      if invalidCountryCode countryCode then
        (Inl (Failed (Error (''Invalid countryCode '' @ sq @ js_toString countryCode @ sq
                             @ '', should be two char string''))), pipeline_init)
      else
        (let code = toLocaleUpperCase (if testModeV then ''NU'' else js_toString countryCode);
             dataPathV = (if testModeV then ''./test/data/'' else dataPath l);
             s0 = pipeline_init\<lparr>opened := [(dataPathV, code @ ''.txt'')]\<rparr>
         in case fs dataPathV (code @ ''.txt'') of
              ReadError err \<Rightarrow> (Inl (Failed (inputError code err)), s0)
            | Content records \<Rightarrow> pipeRecords (closure l testModeV opts) records s0))"

section \<open>getGeoNameCountries\<close>

text \<open>
  \<open>template.replace("%s", replacement)\<close>: the first occurrence of the pattern is
  replaced; in the replacement \<open>$$\<close> stands for a dollar sign, \<open>$&\<close> for the matched
  text, \<open>$`\<close> for the text before the match and \<open>$'\<close> for the text after it (a string
  pattern has no groups, so \<open>$1\<close> and the like stay as they are).
\<close>

fun expandReplacement :: "string \<Rightarrow> string \<Rightarrow> string \<Rightarrow> string \<Rightarrow> string" where
  "expandReplacement lead matched rest [] = []"
| "expandReplacement lead matched rest [c] = [c]"
| "expandReplacement lead matched rest (c # d # cs) =
     (if c = CHR ''$'' \<and> d = CHR ''$'' then CHR ''$'' # expandReplacement lead matched rest cs
      else if c = CHR ''$'' \<and> d = CHR ''&'' then matched @ expandReplacement lead matched rest cs
      else if c = CHR ''$'' \<and> d = CHR 0x60 then lead @ expandReplacement lead matched rest cs
      else if c = CHR ''$'' \<and> d = CHR 0x27 then rest @ expandReplacement lead matched rest cs
      else c # expandReplacement lead matched rest (d # cs))"

fun replaceFrom :: "string \<Rightarrow> string \<Rightarrow> string \<Rightarrow> string" where
  "replaceFrom lead [] replacement = lead"
| "replaceFrom lead (c # cs) replacement =
     (if take 2 (c # cs) = ''%s''
      then lead @ expandReplacement lead ''%s'' (drop 2 (c # cs)) replacement
           @ drop 2 (c # cs)
      else replaceFrom (lead @ [c]) cs replacement)"

definition replacePercentS :: "string \<Rightarrow> string \<Rightarrow> string" where
  "replacePercentS template replacement = replaceFrom [] template replacement"

text \<open>
  What \<open>download(downloadUrl).pipe(parser)\<close> delivers: an error event of the download
  stream or of the parser, or the parsed rows of the catalog.
\<close>

datatype catalog_stream = StreamError js_error | Rows "string list list"

datatype country = IsoCode string | Columns "string list"

text \<open>
  The transform handler of \<open>getGeoNameCountries\<close> over the rows: \<open>record[0]\<close> of an
  empty row is undefined, and calling \<open>startsWith\<close> on it throws.
\<close>

fun collectCountries :: "bool \<Rightarrow> string list list \<Rightarrow> country list \<Rightarrow> halt + country list" where
  "collectCountries allColoumns [] countries = Inr countries"
| "collectCountries allColoumns (r # rs) countries =
     (case r of
        [] \<Rightarrow> Inl (Thrown (TypeError (''Cannot read property '' @ sq @ ''startsWith'' @ sq
                                      @ '' of undefined'')))
      | f # _ \<Rightarrow>
          collectCountries allColoumns rs
            (if take 1 f \<noteq> ''#''
             then countries @ [if allColoumns then Columns r else IsoCode f]
             else countries))"

text \<open>
  The only call of the callback is \<open>cb(null, countries)\<close> in the \<open>finish\<close> listener
  (\<open>Inr countries\<close>). No \<open>error\<close> listener is registered on the download stream, the
  parser or the transformer, and \<open>pipe\<close> neither forwards an error nor ends its
  destination: after an error event \<open>finish\<close> does not come.
\<close>

definition getGeoNameCountries ::
  "local \<Rightarrow> (string \<Rightarrow> catalog_stream) \<Rightarrow> bool \<Rightarrow> halt + country list" where
  "getGeoNameCountries l download allColoumns =
     (let downloadUrl = replacePercentS (geonameDownloadUrl l) ''countryInfo.txt'' in
      case download downloadUrl of
        StreamError err \<Rightarrow> Inl (Unhandled err)
      | Rows rows \<Rightarrow> collectCountries allColoumns rows [])"

section \<open>downloadGeoNameCountryFiles\<close>

record downloadOptions =
  parallelDownloads :: "int option"
  extractV :: bool
  preDownload :: bool
  postDownload :: bool

text \<open>
  What the batch downloader does to the outside, in order: the hook calls, the waves
  handed to \<open>Promise.all\<close> (with the \<open>extract\<close> flag), and the calls of the callback.
\<close>

datatype download_event =
    PreDownload "string list"
  | Started "string option list" bool
  | PostDownload "string list"
  | Callback "js_error + nat"

record downloader =
  downloadQueue :: "string option list"
  downloadsLeft :: "string list"
  filesProcessed :: nat
  events :: "download_event list"

text \<open>
  The loop that validates the country codes and derives the URLs; it returns at the
  first code that has not two characters.
\<close>

fun deriveUrls :: "local \<Rightarrow> string list \<Rightarrow> string list \<Rightarrow> js_error + string list" where
  "deriveUrls l [] left = Inr left"
| "deriveUrls l (country # countries) left =
     (let countryCode = toLocaleUpperCase country in
      if length countryCode \<noteq> 2
      then Inl (Error ''Not all countries in array was correct (two character string)'')
      else deriveUrls l countries
             (left @ [replacePercentS (geonameDownloadUrl l) (countryCode @ ''.zip'')]))"

text \<open>
  The \<open>for\<close> loop that fills the queue, with the number of iterations it has left:
  \<open>shift()\<close> on an empty array gives undefined (\<open>None\<close>).
\<close>

fun fillQueue :: "nat \<Rightarrow> string option list \<Rightarrow> string list
                  \<Rightarrow> string option list \<times> string list" where
  "fillQueue 0 queue left = (queue, left)"
| "fillQueue (Suc n) queue left =
     (let queue' = queue @ [case left of [] \<Rightarrow> None | u # _ \<Rightarrow> Some u];
          left' = tl left
      in if length left' = 0 then (queue', left') else fillQueue n queue' left')"

text \<open>\<open>downloadQueue.join(sep)\<close>: an undefined element is joined as the empty string.\<close>

definition joinQueue :: "string \<Rightarrow> string option list \<Rightarrow> string" where
  "joinQueue sep queue = join sep (map (\<lambda>u. case u of None \<Rightarrow> [] | Some x \<Rightarrow> x) queue)"

definition hookArgument :: "string option list \<Rightarrow> string list" where
  "hookArgument queue = split CHR '','' (joinQueue '','' queue)"

text \<open>
  \<open>downloadNextFiles\<close>. \<open>fetch\<close> is \<open>Promise.all\<close> over the downloads of one wave:
  \<open>None\<close> when all resolve, the text of the rejection otherwise. With a limit below 1
  the queue stays empty, nothing is taken from \<open>downloadsLeft\<close> and the function
  calls itself again and again; it is therefore a partial function, \<open>None\<close> standing
  for a run that does not end.
\<close>

partial_function (option) downloadNextFiles ::
  "(string option list \<Rightarrow> string option) \<Rightarrow> int \<Rightarrow> downloadOptions \<Rightarrow> downloader
   \<Rightarrow> downloader option" where
  "downloadNextFiles fetch limit opts s =
     (let (queue, left) = fillQueue (nat limit) (downloadQueue s) (downloadsLeft s);
          s1 = s\<lparr>downloadQueue := queue, downloadsLeft := left\<rparr>;
          s2 = (if length queue = 0
                then s1\<lparr>events := events s1 @ [Callback (Inr (filesProcessed s1))]\<rparr> else s1);
          s3 = (if preDownload opts
                then s2\<lparr>events := events s2 @ [PreDownload (hookArgument queue)]\<rparr> else s2);
          s4 = s3\<lparr>events := events s3 @ [Started queue (extractV opts)]\<rparr>
      in case fetch queue of
           Some err \<Rightarrow>
             Some (s4\<lparr>events := events s4 @
                     [Callback (Inl (Error (''Error downloading '' @ joinQueue '', '' queue
                                            @ '': '' @ err)))]\<rparr>)
         | None \<Rightarrow>
             (let s5 = (if postDownload opts
                        then s4\<lparr>events := events s4 @ [PostDownload (hookArgument queue)]\<rparr>
                        else s4);
                  s6 = s5\<lparr>filesProcessed := filesProcessed s5 + length queue,
                          downloadQueue := []\<rparr>
              in if length left = 0
                 then Some (s6\<lparr>events := events s6 @ [Callback (Inr (filesProcessed s6))]\<rparr>)
                 else downloadNextFiles fetch limit opts s6))"

declare downloadNextFiles.simps [code]

definition downloader_init :: downloader where
  "downloader_init = \<lparr> downloadQueue = [], downloadsLeft = [], filesProcessed = 0, events = [] \<rparr>"

text \<open>\<open>countries\<close> is an array of strings.\<close>

definition downloadGeoNameCountryFiles ::
  "local \<Rightarrow> (string option list \<Rightarrow> string option) \<Rightarrow> string list \<Rightarrow> downloadOptions
   \<Rightarrow> downloader option" where
  "downloadGeoNameCountryFiles l fetch countries opts =
     (let limit = (case parallelDownloads opts of
                     None \<Rightarrow> 2
                   | Some n \<Rightarrow> if n \<noteq> 0 then n else 2)
      in if length countries = 0
         then Some (downloader_init\<lparr>events := [Callback (Inr 0)]\<rparr>)
         else case deriveUrls l countries [] of
                Inl err \<Rightarrow> Some (downloader_init\<lparr>events := [Callback (Inl err)]\<rparr>)
              | Inr left \<Rightarrow>
                  downloadNextFiles fetch limit opts (downloader_init\<lparr>downloadsLeft := left\<rparr>))"

section \<open>Notions used in the statements\<close>

text \<open>
  The state after the handler has pushed the directive and the document of a record
  and counted it, and the state after \<open>client.bulk\<close> has been called and the hook
  has run.
\<close>

definition buffered :: "local \<Rightarrow> string list \<Rightarrow> pipeline \<Rightarrow> pipeline" where
  "buffered l r s =
     s\<lparr>recordsProcessed := recordsProcessed s + 1,
       recordsAdded := recordsAdded s + 1,
       outputV := outputV s @ [directive l r, Document (lineOutput r)]\<rparr>"

definition committed :: "bool \<Rightarrow> pipeline \<Rightarrow> pipeline" where
  "committed hook s =
     s\<lparr>bulkCalls := bulkCalls s @ [outputV s],
       hookCalls := (if hook then hookCalls s @ [recordsProcessed s] else hookCalls s)\<rparr>"

text \<open>The state in which a step ends, whether it continues or halts.\<close>

definition final :: "(halt \<times> pipeline) + pipeline \<Rightarrow> pipeline" where
  "final x = (case x of Inl (h, s) \<Rightarrow> s | Inr s \<Rightarrow> s)"

text \<open>
  The bulk body of a list of records: for each record its directive, then its
  document. A body is \<open>paired\<close> when it is the body of some records taken from \<open>R\<close>;
  a state is well paired when every body committed so far and the buffer are.
\<close>

definition pairs :: "local \<Rightarrow> string list list \<Rightarrow> entry list" where
  "pairs l rs = concat (map (\<lambda>r. [directive l r, Document (lineOutput r)]) rs)"

definition paired :: "local \<Rightarrow> string list set \<Rightarrow> entry list \<Rightarrow> bool" where
  "paired l R b \<longleftrightarrow> (\<exists>ks. set ks \<subseteq> R \<and> b = pairs l ks)"

definition wellPaired :: "local \<Rightarrow> string list set \<Rightarrow> pipeline \<Rightarrow> bool" where
  "wellPaired l R s \<longleftrightarrow> (\<forall>b\<in>set (bulkCalls s). paired l R b) \<and> paired l R (outputV s)"

text \<open>
  The records that one invocation may buffer: those of the file it opened that pass
  the class filter.
\<close>

definition sourceRecords :: "filesystem \<Rightarrow> options \<Rightarrow> pipeline \<Rightarrow> string list set" where
  "sourceRecords fs opts s =
     {r. \<not> isFilteredOut (classFilters opts) r
         \<and> (\<exists>d n records. opened s = [(d, n)] \<and> fs d n = Content records \<and> r \<in> set records)}"

text \<open>A closure whose client is there and acknowledges every bulk call.\<close>

definition acks :: "ctx \<Rightarrow> bool" where
  "acks c \<longleftrightarrow> (testMode c \<or> client (localV c) \<noteq> None)
              \<and> (\<exists>bulk. clientV c = Some bulk \<and> (\<forall>sent body. bulk sent body = Ack))"

text \<open>The records the handler of a closure keeps.\<close>

abbreviation kept :: "ctx \<Rightarrow> string list \<Rightarrow> bool" where
  "kept c r \<equiv> \<not> isFilteredOut (featureClassFilters c) r"

text \<open>
  The number of records read when the \<open>m\<close>-th record that satisfies \<open>P\<close> has just
  been read (the number of all records when fewer than \<open>m\<close> satisfy \<open>P\<close>).
\<close>

fun readUntilKept :: "('a \<Rightarrow> bool) \<Rightarrow> nat \<Rightarrow> 'a list \<Rightarrow> nat" where
  "readUntilKept P 0 xs = 0"
| "readUntilKept P (Suc m) [] = 0"
| "readUntilKept P (Suc m) (x # xs) =
     Suc (if P x then readUntilKept P m xs else readUntilKept P (Suc m) xs)"

text \<open>
  The number of bulk calls made while the records stream through the handler, and the
  number made by the \<open>finish\<close> listener (\<open>None\<close> when the stream halts before the end).
\<close>

definition flushCounts :: "ctx \<Rightarrow> string list list \<Rightarrow> pipeline \<Rightarrow> (nat \<times> nat) option" where
  "flushCounts c records s0 =
     (case transformAll c records s0 of
        Inl h \<Rightarrow> None
      | Inr s1 \<Rightarrow>
          Some (length (bulkCalls s1) - length (bulkCalls s0),
                length (bulkCalls (snd (onFinish c s1))) - length (bulkCalls s1)))"

text \<open>
  The consecutive chunks of \<open>n\<close> elements of a list, the last one holding the
  remainder.
\<close>

fun waves :: "nat \<Rightarrow> 'a list \<Rightarrow> 'a list list" where
  "waves n xs = (if n = 0 \<or> xs = [] then [] else take n xs # waves n (drop n xs))"

declare waves.simps [simp del]

definition countryUrl :: "local \<Rightarrow> string \<Rightarrow> string" where
  "countryUrl l country =
     replacePercentS (geonameDownloadUrl l) (toLocaleUpperCase country @ ''.zip'')"

text \<open>
  What one successful wave does to the outside, and what a list of waves does when
  they run one after the other, the next one only after \<open>fetch\<close> has resolved the one
  before: a rejected wave ends the run with the error callback.
\<close>

definition waveEvents :: "downloadOptions \<Rightarrow> string list \<Rightarrow> download_event list" where
  "waveEvents opts w =
     (if preDownload opts then [PreDownload (hookArgument (map Some w))] else [])
     @ [Started (map Some w) (extractV opts)]
     @ (if postDownload opts then [PostDownload (hookArgument (map Some w))] else [])"

fun waveRun :: "(string option list \<Rightarrow> string option) \<Rightarrow> downloadOptions \<Rightarrow> nat
                \<Rightarrow> string list list \<Rightarrow> download_event list" where
  "waveRun fetch opts n [] = [Callback (Inr n)]"
| "waveRun fetch opts n (w # ws) =
     (if preDownload opts then [PreDownload (hookArgument (map Some w))] else [])
     @ [Started (map Some w) (extractV opts)]
     @ (case fetch (map Some w) of
          Some err \<Rightarrow>
            [Callback (Inl (Error (''Error downloading '' @ joinQueue '', '' (map Some w)
                                   @ '': '' @ err)))]
        | None \<Rightarrow>
            (if postDownload opts then [PostDownload (hookArgument (map Some w))] else [])
            @ waveRun fetch opts (n + length w) ws)"

text \<open>Concrete inputs for the examples.\<close>

definition exampleOptions :: "int option \<Rightarrow> string list option \<Rightarrow> options" where
  "exampleOptions n filters = \<lparr>bufferRecords = n, classFilters = filters, bufferAdded = True\<rparr>"

definition placeRecord :: "string \<Rightarrow> string \<Rightarrow> string list" where
  "placeRecord ident name =
     [ident, name, name, [], ''-19.05451'', ''-169.91768'', ''P'', ''PPL'', ''NU'']"

definition areaRecord :: "string \<Rightarrow> string \<Rightarrow> string list" where
  "areaRecord ident name =
     [ident, name, name, [], ''-19.03333'', ''-169.86667'', ''A'', ''PCLS'', ''NU'']"

definition exampleRecords :: "string list list" where
  "exampleRecords =
     [placeRecord ''4036284'' ''Alofi'', areaRecord ''4036232'' ''Niue'',
      placeRecord ''4036238'' ''Avatele'']"

definition sixRecords :: "string list list" where
  "sixRecords =
     [placeRecord ''1'' ''Alofi'', placeRecord ''2'' ''Avatele'', areaRecord ''3'' ''Niue'',
      placeRecord ''4'' ''Hakupu'', placeRecord ''5'' ''Lakepa'', placeRecord ''6'' ''Liku'']"

definition fixtureRecords :: "string list list" where
  "fixtureRecords = replicate 45 (placeRecord ''1'' ''Alofi'') @ replicate 64 (areaRecord ''2'' ''Niue'')"

definition filesIn :: "string \<Rightarrow> string list list \<Rightarrow> filesystem" where
  "filesIn dataDir records =
     (\<lambda>dir name. if dir = dataDir \<and> name = ''NU.txt'' then Content records
                  else ReadError (FsError ''ENOENT'' (dir @ name)))"

definition testFiles :: "string list list \<Rightarrow> filesystem" where
  "testFiles records = filesIn ''./test/data/'' records"

definition rejectingClient :: "string \<Rightarrow> client" where
  "rejectingClient message = (\<lambda>sent body. Reject (Some message))"

definition twelveCountries :: "string list" where
  "twelveCountries = [''no'', ''se'', ''dk'', ''fi'', ''is'', ''de'', ''fr'', ''it'', ''es'',
                      ''pt'', ''nl'', ''be'']"

definition downloadOptionsWith :: "int option \<Rightarrow> downloadOptions" where
  "downloadOptionsWith n =
     \<lparr>parallelDownloads = n, extractV = True, preDownload = False, postDownload = True\<rparr>"

text \<open>
  The document of a record as the store is to receive it: the nineteen named fields
  in the order of the mapper, each the field of the record at its position, and the
  \<open>location\<close> field made of latitude and longitude.
\<close>

definition documentOf :: "string list \<Rightarrow> (string \<times> string option) list" where
  "documentOf r =
     [(''geonameId'', fieldAt r 0), (''name'', fieldAt r 1), (''asciiName'', fieldAt r 2),
      (''alternateNames'', fieldAt r 3), (''latitude'', fieldAt r 4),
      (''longitude'', fieldAt r 5), (''featureClass'', fieldAt r 6),
      (''featureCode'', fieldAt r 7), (''country'', fieldAt r 8), (''cc2'', fieldAt r 9),
      (''admin1'', fieldAt r 10), (''admin2'', fieldAt r 11), (''admin3'', fieldAt r 12),
      (''admin4'', fieldAt r 13), (''population'', fieldAt r 14),
      (''elevation'', fieldAt r 15), (''dem'', fieldAt r 16), (''timezone'', fieldAt r 17),
      (''modDate'', fieldAt r 18),
      (''location'',
       Some ((case fieldAt r 4 of None \<Rightarrow> ''undefined'' | Some x \<Rightarrow> x) @ '',''
             @ (case fieldAt r 5 of None \<Rightarrow> ''undefined'' | Some y \<Rightarrow> y)))]"

text \<open>
  What the store answers to the commit of the buffer, if the commit reaches it: there
  is no answer when no client is configured outside test mode.
\<close>

definition storeReply :: "ctx \<Rightarrow> pipeline \<Rightarrow> bulk_reply option" where
  "storeReply c p =
     (if testMode c \<or> client (localV c) \<noteq> None
      then (case clientV c of None \<Rightarrow> None | Some bulk \<Rightarrow> Some (bulk (bulkCalls p) (outputV p)))
      else None)"

text \<open>Downloads that all resolve.\<close>

definition resolving :: "string option list \<Rightarrow> string option" where
  "resolving queue = None"

section \<open>The steps of the pipeline\<close>

lemma filterLoop_eq: "filterLoop fs fc b \<longleftrightarrow> b \<and> \<not> (\<exists>f\<in>set fs. fc = Some f)"
  by (induction fs arbitrary: b) auto

lemma mapped_featureClass: "mapped r ''featureClass'' = fieldAt r 6"
  by (simp add: mapped_def geonameLocationMapper_def)

lemma isFilteredOut_iff:
  "isFilteredOut filters r \<longleftrightarrow>
     (\<exists>fs. filters = Some fs \<and> fs \<noteq> [] \<and> \<not> (\<exists>f\<in>set fs. fieldAt r 6 = Some f))"
  by (cases filters) (auto simp: isFilteredOut_def filterLoop_eq mapped_featureClass)

lemma final_simps [simp]: "final (Inr s) = s" "final (Inl (h, s)) = s"
  by (simp_all add: final_def)

lemma closure_simps [simp]:
  "featureClassFilters (closure l t opts) = classFilters opts"
  "fnBufferComplete (closure l t opts) = bufferAdded opts"
  "localV (closure l t opts) = l"
  "testMode (closure l t opts) = t"
  by (simp_all add: closure_def)

lemma transformer_eq:
  "transformer c r s =
     (if isFilteredOut (featureClassFilters c) r
        then Inr (s\<lparr>recordsProcessed := recordsProcessed s + 1\<rparr>)
      else if int (length (outputV s)) + 2 = bufferRecordsV c
        then helperAddBuffer c (buffered (localV c) r s)
      else Inr (buffered (localV c) r s))"
  by (simp add: transformer_def buffered_def Let_def)

lemma helperAddBuffer_cases:
  "helperAddBuffer c s = Inl (Thrown (Error ''No db connection to elastic''), s)
   \<or> (\<exists>e. helperAddBuffer c s = Inl (Thrown (TypeError e), s))
   \<or> (\<exists>m. helperAddBuffer c s = Inl (bulkError m, committed (fnBufferComplete c) s))
   \<or> helperAddBuffer c s = Inr ((committed (fnBufferComplete c) s)\<lparr>outputV := []\<rparr>)"
  by (auto simp: helperAddBuffer_def committed_def Let_def split: option.splits bulk_reply.splits)

lemma helperAddBuffer_Inr:
  "helperAddBuffer c s = Inr s' \<Longrightarrow> s' = (committed (fnBufferComplete c) s)\<lparr>outputV := []\<rparr>"
  using helperAddBuffer_cases [of c s] by auto

lemma helperAddBuffer_Inl:
  "helperAddBuffer c s = Inl (h, s') \<Longrightarrow> s' = s \<or> s' = committed (fnBufferComplete c) s"
  using helperAddBuffer_cases [of c s] by auto

lemma helperAddBuffer_acks:
  "acks c \<Longrightarrow> helperAddBuffer c s = Inr ((committed (fnBufferComplete c) s)\<lparr>outputV := []\<rparr>)"
  by (auto simp: acks_def helperAddBuffer_def committed_def Let_def)

lemma transformAll_append:
  "transformAll c (xs @ ys) s =
     (case transformAll c xs s of Inl h \<Rightarrow> Inl h | Inr s' \<Rightarrow> transformAll c ys s')"
  by (induction xs arbitrary: s) (auto split: sum.splits)

subsection \<open>Directive and document stay paired\<close>

lemma pairs_simps [simp]:
  "pairs l [] = []"
  "pairs l (r # rs) = directive l r # Document (lineOutput r) # pairs l rs"
  "pairs l (xs @ ys) = pairs l xs @ pairs l ys"
  by (simp_all add: pairs_def)

lemma length_pairs [simp]: "length (pairs l rs) = 2 * length rs"
  by (induction rs) simp_all

lemma nth_pairs:
  "k < length rs \<Longrightarrow>
     pairs l rs ! (2 * k) = directive l (rs ! k)
     \<and> pairs l rs ! (2 * k + 1) = Document (lineOutput (rs ! k))"
proof (induction rs arbitrary: k)
  case Nil
  then show ?case by simp
next
  case (Cons r rs)
  show ?case
  proof (cases k)
    case 0
    then show ?thesis by simp
  next
    case (Suc j)
    with Cons.prems have "j < length rs" by simp
    from Cons.IH [OF this] Suc show ?thesis by simp
  qed
qed

lemma in_pairs:
  "e \<in> set (pairs l ks) \<Longrightarrow> \<exists>r. e = directive l r \<or> e = Document (lineOutput r)"
  by (induction ks) auto

lemma paired_empty [simp]: "paired l R []"
  unfolding paired_def by (rule exI [of _ "[]"]) simp

lemma paired_snoc:
  assumes "paired l R b" "r \<in> R"
  shows "paired l R (b @ [directive l r, Document (lineOutput r)])"
proof -
  from assms obtain ks where "set ks \<subseteq> R" "b = pairs l ks"
    unfolding paired_def by blast
  with assms(2) have "set (ks @ [r]) \<subseteq> R \<and> b @ [directive l r, Document (lineOutput r)] = pairs l (ks @ [r])"
    by simp
  then show ?thesis unfolding paired_def by blast
qed

lemma paired_even: "paired l R b \<Longrightarrow> even (length b)"
  by (auto simp: paired_def)

lemma paired_nth:
  assumes "paired l R b" "2 * k + 1 < length b"
  shows "\<exists>r\<in>R. b ! (2 * k) = directive l r \<and> b ! (2 * k + 1) = Document (lineOutput r)"
proof -
  from assms(1) obtain ks where ks: "set ks \<subseteq> R" "b = pairs l ks"
    unfolding paired_def by blast
  with assms(2) have k: "k < length ks" by simp
  from nth_pairs [OF k, of l] ks k show ?thesis
    by (auto intro!: bexI [of _ "ks ! k"])
qed

lemma wellPaired_buffered:
  "wellPaired l R s \<Longrightarrow> r \<in> R \<Longrightarrow> wellPaired l R (buffered l r s)"
  by (simp add: wellPaired_def buffered_def paired_snoc)

lemma wellPaired_committed:
  "wellPaired l R s \<Longrightarrow> wellPaired l R (committed hook s)"
  by (auto simp: wellPaired_def committed_def)

lemma wellPaired_cleared:
  "wellPaired l R s \<Longrightarrow> wellPaired l R (s\<lparr>outputV := []\<rparr>)"
  by (simp add: wellPaired_def)

lemma wellPaired_processed:
  "wellPaired l R s \<Longrightarrow> wellPaired l R (s\<lparr>recordsProcessed := n\<rparr>)"
  by (simp add: wellPaired_def)

lemma wellPaired_init [simp]: "wellPaired l R (pipeline_init\<lparr>opened := x\<rparr>)" "wellPaired l R pipeline_init"
  by (simp_all add: wellPaired_def pipeline_init_def)

lemma wellPaired_helperAddBuffer:
  "wellPaired l R s \<Longrightarrow> wellPaired l R (final (helperAddBuffer c s))"
  using helperAddBuffer_cases [of c s]
  by (auto simp: wellPaired_committed wellPaired_cleared)

lemma wellPaired_transformer:
  assumes "wellPaired l R s" "\<not> isFilteredOut (featureClassFilters c) r \<Longrightarrow> r \<in> R"
    "localV c = l"
  shows "wellPaired l R (final (transformer c r s))"
  using assms
  by (simp add: transformer_eq wellPaired_helperAddBuffer wellPaired_buffered
      wellPaired_processed)

lemma wellPaired_transformAll:
  assumes "wellPaired l R s"
    "\<And>r. r \<in> set rs \<Longrightarrow> \<not> isFilteredOut (featureClassFilters c) r \<Longrightarrow> r \<in> R"
    "localV c = l"
  shows "wellPaired l R (final (transformAll c rs s))"
  using assms
proof (induction rs arbitrary: s)
  case Nil
  then show ?case by simp
next
  case (Cons r rs)
  from Cons.prems have step: "wellPaired l R (final (transformer c r s))"
    by (simp add: wellPaired_transformer)
  show ?case
  proof (cases "transformer c r s")
    case (Inl h)
    with step show ?thesis by simp
  next
    case (Inr s')
    with step have "wellPaired l R s'" by simp
    from Cons.IH [OF this] Cons.prems Inr show ?thesis by simp
  qed
qed

lemma wellPaired_onFinish:
  "wellPaired l R s \<Longrightarrow> wellPaired l R (snd (onFinish c s))"
  using wellPaired_helperAddBuffer [of l R s c]
  by (auto simp: onFinish_def final_def split: sum.splits prod.splits)

lemma wellPaired_pipeRecords:
  assumes "wellPaired l R s"
    "\<And>r. r \<in> set rs \<Longrightarrow> \<not> isFilteredOut (featureClassFilters c) r \<Longrightarrow> r \<in> R"
    "localV c = l"
  shows "wellPaired l R (snd (pipeRecords c rs s))"
proof -
  have wp: "wellPaired l R (final (transformAll c rs s))"
    by (rule wellPaired_transformAll) (use assms in auto)
  show ?thesis
  proof (cases "transformAll c rs s")
    case (Inl h)
    with wp show ?thesis
      by (cases h) (simp add: pipeRecords_def)
  next
    case (Inr s')
    with wp have "wellPaired l R s'" by simp
    from wellPaired_onFinish [OF this] Inr show ?thesis
      by (simp add: pipeRecords_def)
  qed
qed

lemma wellPaired_directives:
  assumes "wellPaired l R s" "b \<in> set (bulkCalls s)" "Directive i t d \<in> set b"
  shows "i = elasticIndex l \<and> t = elasticType l"
proof -
  from assms(1,2) obtain ks where "b = pairs l ks"
    unfolding wellPaired_def paired_def by blast
  with assms(3) in_pairs [of "Directive i t d" l ks] show ?thesis
    by (auto simp: directive_def)
qed

subsection \<open>Files opened and counters\<close>

lemma opened_helperAddBuffer: "opened (final (helperAddBuffer c s)) = opened s"
  using helperAddBuffer_cases [of c s] by (auto simp: committed_def)

lemma opened_transformer: "opened (final (transformer c r s)) = opened s"
  by (simp add: transformer_eq opened_helperAddBuffer buffered_def)

lemma opened_transformAll: "opened (final (transformAll c rs s)) = opened s"
proof (induction rs arbitrary: s)
  case Nil
  show ?case by simp
next
  case (Cons r rs)
  show ?case
  proof (cases "transformer c r s")
    case (Inl h)
    with opened_transformer [of c r s] show ?thesis by simp
  next
    case (Inr s')
    with opened_transformer [of c r s] Cons.IH [of s'] show ?thesis by simp
  qed
qed

lemma opened_onFinish: "opened (snd (onFinish c s)) = opened s"
  using opened_helperAddBuffer [of c s]
  by (auto simp: onFinish_def final_def split: sum.splits prod.splits)

lemma opened_pipeRecords: "opened (snd (pipeRecords c rs s)) = opened s"
  using opened_transformAll [of c rs s] opened_onFinish [of c]
  by (auto simp: pipeRecords_def final_def split: sum.splits prod.splits)

lemma transformer_final_counters:
  "recordsProcessed (final (transformer c r s)) = recordsProcessed s + 1
   \<and> recordsAdded (final (transformer c r s))
       = recordsAdded s + (if isFilteredOut (featureClassFilters c) r then 0 else 1)"
  using helperAddBuffer_cases [of c "buffered (localV c) r s"]
  by (auto simp: transformer_eq buffered_def committed_def)

lemma transformer_Inr_counters:
  assumes "transformer c r s = Inr s'"
  shows "recordsProcessed s' = recordsProcessed s + 1
       \<and> recordsAdded s' = recordsAdded s + (if isFilteredOut (featureClassFilters c) r then 0 else 1)"
  using assms
  by (auto simp: transformer_eq buffered_def committed_def split: if_splits
      dest!: helperAddBuffer_Inr)

lemma transformAll_Inr_counters:
  assumes "transformAll c rs s = Inr s'"
  shows "recordsProcessed s' = recordsProcessed s + length rs
       \<and> recordsAdded s' = recordsAdded s
           + length (filter (\<lambda>r. \<not> isFilteredOut (featureClassFilters c) r) rs)"
  using assms
proof (induction rs arbitrary: s)
  case Nil
  then show ?case by simp
next
  case (Cons r rs)
  then obtain s1 where s1: "transformer c r s = Inr s1" and rest: "transformAll c rs s1 = Inr s'"
    by (auto split: sum.splits)
  from transformer_Inr_counters [OF s1] Cons.IH [OF rest] show ?case by simp
qed

lemma onFinish_Inr_counters:
  assumes "onFinish c s = (Inr r, s')"
  shows "processed r = recordsProcessed s \<and> added r = recordsAdded s"
  using assms
  by (auto simp: onFinish_def result_def committed_def split: if_splits sum.splits prod.splits
      dest!: helperAddBuffer_Inr)

lemma pipeRecords_Inr_counters:
  assumes "pipeRecords c rs s = (Inr r, s')"
  shows "processed r = recordsProcessed s + length rs
       \<and> added r = recordsAdded s
           + length (filter (\<lambda>x. \<not> isFilteredOut (featureClassFilters c) x) rs)"
proof -
  from assms obtain s1 where s1: "transformAll c rs s = Inr s1" and fin: "onFinish c s1 = (Inr r, s')"
    by (auto simp: pipeRecords_def split: sum.splits prod.splits)
  from transformAll_Inr_counters [OF s1] onFinish_Inr_counters [OF fin] show ?thesis by simp
qed

lemma addFileToElastic_Inr:
  assumes "addFileToElastic l fs countryCode opts = (Inr r, s)"
  shows "\<exists>d n records t. fs d n = Content records \<and> opened s = [(d, n)]
           \<and> pipeRecords (closure l t opts) records (pipeline_init\<lparr>opened := [(d, n)]\<rparr>) = (Inr r, s)"
proof -
  from assms have valid: "\<not> invalidCountryCode countryCode"
    by (auto simp: addFileToElastic_def)
  define t where "t = (typeof countryCode = ''string'' \<and> js_toString countryCode = ''00'')"
  define d where "d = (if t then ''./test/data/'' else dataPath l)"
  define n where "n = toLocaleUpperCase (if t then ''NU'' else js_toString countryCode) @ ''.txt''"
  from assms valid obtain records where c: "fs d n = Content records"
    and run: "pipeRecords (closure l t opts) records (pipeline_init\<lparr>opened := [(d, n)]\<rparr>) = (Inr r, s)"
    by (auto simp: addFileToElastic_def Let_def t_def d_def n_def split: source_file.splits)
  from opened_pipeRecords [of "closure l t opts" records "pipeline_init\<lparr>opened := [(d, n)]\<rparr>"] run
  have "opened s = [(d, n)]" by simp
  with c run show ?thesis by blast
qed

lemma addFileToElastic_wellPaired:
  "wellPaired l (sourceRecords fs opts (snd (addFileToElastic l fs countryCode opts)))
     (snd (addFileToElastic l fs countryCode opts))"
proof (cases "invalidCountryCode countryCode")
  case True
  then show ?thesis by (simp add: addFileToElastic_def)
next
  case False
  define t where "t = (typeof countryCode = ''string'' \<and> js_toString countryCode = ''00'')"
  define d where "d = (if t then ''./test/data/'' else dataPath l)"
  define n where "n = toLocaleUpperCase (if t then ''NU'' else js_toString countryCode) @ ''.txt''"
  show ?thesis
  proof (cases "fs d n")
    case (ReadError err)
    with False show ?thesis
      by (simp add: addFileToElastic_def Let_def t_def d_def n_def)
  next
    case (Content records)
    define s0 where "s0 = pipeline_init\<lparr>opened := [(d, n)]\<rparr>"
    define s where "s = snd (pipeRecords (closure l t opts) records s0)"
    from False Content have run: "snd (addFileToElastic l fs countryCode opts) = s"
      by (simp add: addFileToElastic_def Let_def t_def d_def n_def s_def s0_def)
    have o: "opened s = [(d, n)]"
      unfolding s_def using opened_pipeRecords [of "closure l t opts" records s0]
      by (simp add: s0_def)
    have "wellPaired l (sourceRecords fs opts s) s"
      unfolding s_def [symmetric]
      apply (subst (2) s_def)
      apply (rule wellPaired_pipeRecords)
        apply (simp add: s0_def)
       apply (use o Content in \<open>auto simp: sourceRecords_def\<close>)
      done
    with run show ?thesis by simp
  qed
qed

subsection \<open>Runs against a store that acknowledges\<close>

lemma acks_transformAll: "acks c \<Longrightarrow> \<exists>s'. transformAll c rs s = Inr s'"
proof (induction rs arbitrary: s)
  case Nil
  show ?case by simp
next
  case (Cons r rs)
  have "\<exists>s1. transformer c r s = Inr s1"
    by (simp add: transformer_eq helperAddBuffer_acks [OF Cons.prems])
  then obtain s1 where "transformer c r s = Inr s1" by blast
  with Cons.IH [OF Cons.prems, of s1] show ?case by simp
qed

lemma acks_pipeRecords:
  assumes "acks c"
  shows "fst (pipeRecords c rs s) =
           Inr \<lparr>processed = recordsProcessed s + length rs,
                added = recordsAdded s + length (filter (kept c) rs)\<rparr>"
proof -
  from acks_transformAll [OF assms] obtain s1 where s1: "transformAll c rs s = Inr s1" by blast
  have "\<exists>r s2. onFinish c s1 = (Inr r, s2)"
    by (simp add: onFinish_def helperAddBuffer_acks [OF assms])
  then obtain r s2 where fin: "onFinish c s1 = (Inr r, s2)" by blast
  from s1 fin have run: "pipeRecords c rs s = (Inr r, s2)" by (simp add: pipeRecords_def)
  from pipeRecords_Inr_counters [OF run] run show ?thesis by simp
qed

lemma acks_testMode: "acks (closure l True opts)"
  by (simp add: acks_def closure_def mockClient_def)

lemma toLocaleUpperCase_NU: "toLocaleUpperCase ''NU'' = ''NU''"
  by (simp add: toLocaleUpperCase_def toUpperChar_def)

lemma testMode_run:
  assumes "fs ''./test/data/'' ''NU.txt'' = Content records"
  shows "fst (addFileToElastic l fs (JStr ''00'') opts) =
           Inr \<lparr>processed = length records,
                added = length (filter (\<lambda>r. \<not> isFilteredOut (classFilters opts) r) records)\<rparr>"
  using assms
  by (simp add: addFileToElastic_def invalidCountryCode_def toLocaleUpperCase_NU
      acks_pipeRecords [OF acks_testMode] pipeline_init_def)

lemma transformAll_below_threshold:
  assumes "int (length (outputV s)) + 2 * int (length (filter (kept c) rs)) < bufferRecordsV c"
  shows "transformAll c rs s =
           Inr (s\<lparr>recordsProcessed := recordsProcessed s + length rs,
                  recordsAdded := recordsAdded s + length (filter (kept c) rs),
                  outputV := outputV s @ pairs (localV c) (filter (kept c) rs)\<rparr>)"
  using assms
proof (induction rs arbitrary: s)
  case Nil
  show ?case by simp
next
  case (Cons r rs)
  show ?case
  proof (cases "kept c r")
    case True
    with Cons.prems
    have step: "transformer c r s = Inr (buffered (localV c) r s)"
      by (simp add: transformer_eq)
    from True Cons.prems
    have "int (length (outputV (buffered (localV c) r s)))
            + 2 * int (length (filter (kept c) rs)) < bufferRecordsV c"
      by (simp add: buffered_def)
    from Cons.IH [OF this] step True show ?thesis
      by (simp add: buffered_def)
  next
    case False
    then have step: "transformer c r s = Inr (s\<lparr>recordsProcessed := recordsProcessed s + 1\<rparr>)"
      by (simp add: transformer_eq)
    from False Cons.prems
    have "int (length (outputV (s\<lparr>recordsProcessed := recordsProcessed s + 1\<rparr>)))
            + 2 * int (length (filter (kept c) rs)) < bufferRecordsV c"
      by simp
    from Cons.IH [OF this] step False show ?thesis
      by simp
  qed
qed

lemma transformAll_flush:
  assumes a: "acks c" and k: "kept c x"
    and t: "int (length (outputV s)) + 2 * int (length (filter (kept c) rs)) + 2 = bufferRecordsV c"
  shows "transformAll c (rs @ [x]) s =
           Inr (s\<lparr>recordsProcessed := recordsProcessed s + length rs + 1,
                  recordsAdded := recordsAdded s + length (filter (kept c) rs) + 1,
                  bulkCalls := bulkCalls s @ [outputV s @ pairs (localV c) (filter (kept c) rs @ [x])],
                  hookCalls := (if fnBufferComplete c
                                then hookCalls s @ [recordsProcessed s + length rs + 1]
                                else hookCalls s),
                  outputV := []\<rparr>)"
proof -
  from t have "int (length (outputV s)) + 2 * int (length (filter (kept c) rs)) < bufferRecordsV c"
    by simp
  note pre = transformAll_below_threshold [OF this]
  show ?thesis
    using k t
    by (simp add: transformAll_append pre transformer_eq helperAddBuffer_acks [OF a]
        buffered_def committed_def)
qed

lemma split_at_kept:
  "m < length (filter P xs) \<Longrightarrow>
     \<exists>A a B. xs = A @ a # B \<and> P a \<and> length (filter P A) = m
             \<and> length (filter P B) = length (filter P xs) - Suc m
             \<and> (\<forall>k. readUntilKept P (Suc m + k) xs = Suc (length A) + readUntilKept P k B)"
proof (induction xs arbitrary: m)
  case Nil
  then show ?case by simp
next
  case (Cons x xs)
  show ?case
  proof (cases "P x")
    case False
    with Cons.prems have "m < length (filter P xs)" by simp
    from Cons.IH [OF this] obtain A a B where
      h: "xs = A @ a # B" "P a" "length (filter P A) = m"
         "length (filter P B) = length (filter P xs) - Suc m"
         "\<forall>k. readUntilKept P (Suc m + k) xs = Suc (length A) + readUntilKept P k B"
      by blast
    with False have "x # xs = (x # A) @ a # B \<and> P a \<and> length (filter P (x # A)) = m
             \<and> length (filter P B) = length (filter P (x # xs)) - Suc m
             \<and> (\<forall>k. readUntilKept P (Suc m + k) (x # xs) = Suc (length (x # A)) + readUntilKept P k B)"
      by simp
    then show ?thesis by blast
  next
    case True
    show ?thesis
    proof (cases m)
      case 0
      with True have "x # xs = [] @ x # xs \<and> P x \<and> length (filter P []) = m
             \<and> length (filter P xs) = length (filter P (x # xs)) - Suc m
             \<and> (\<forall>k. readUntilKept P (Suc m + k) (x # xs) = Suc (length ([]::'a list)) + readUntilKept P k xs)"
        by simp
      then show ?thesis by blast
    next
      case (Suc j)
      with True Cons.prems have "j < length (filter P xs)" by simp
      from Cons.IH [OF this] obtain A a B where
        h: "xs = A @ a # B" "P a" "length (filter P A) = j"
           "length (filter P B) = length (filter P xs) - Suc j"
           "\<forall>k. readUntilKept P (Suc j + k) xs = Suc (length A) + readUntilKept P k B"
        by blast
      with True Suc have "x # xs = (x # A) @ a # B \<and> P a \<and> length (filter P (x # A)) = m
             \<and> length (filter P B) = length (filter P (x # xs)) - Suc m
             \<and> (\<forall>k. readUntilKept P (Suc m + k) (x # xs) = Suc (length (x # A)) + readUntilKept P k B)"
        by simp
      then show ?thesis by blast
    qed
  qed
qed

subsection \<open>What the store answers and what is committed\<close>

lemma lineOutput_documentOf: "lineOutput r = documentOf r"
  by (simp add: lineOutput_def documentOf_def geonameLocationMapper_def mapped_def js_str_def)

lemma mapped_geonameId: "mapped r ''geonameId'' = fieldAt r 0"
  by (simp add: mapped_def geonameLocationMapper_def)

lemma directive_eq: "directive l r = Directive (elasticIndex l) (elasticType l) (fieldAt r 0)"
  by (simp add: directive_def mapped_geonameId)

lemma pairs_eq:
  "pairs l rs =
     concat (map (\<lambda>r. [Directive (elasticIndex l) (elasticType l) (fieldAt r 0),
                        Document (documentOf r)]) rs)"
  by (simp add: pairs_def directive_eq lineOutput_documentOf)

lemma storeReply_Ack_iff:
  "storeReply c p = Some Ack \<longleftrightarrow>
     (testMode c \<or> client (localV c) \<noteq> None)
     \<and> (\<exists>bulk. clientV c = Some bulk \<and> bulk (bulkCalls p) (outputV p) = Ack)"
  by (auto simp: storeReply_def split: option.splits)

lemma storeReply_Reject_iff:
  "storeReply c p = Some (Reject m) \<longleftrightarrow>
     (testMode c \<or> client (localV c) \<noteq> None)
     \<and> (\<exists>bulk. clientV c = Some bulk \<and> bulk (bulkCalls p) (outputV p) = Reject m)"
  by (auto simp: storeReply_def split: option.splits)

lemma helperAddBuffer_Ack:
  assumes "storeReply c p = Some Ack"
  shows "helperAddBuffer c p =
           Inr (p\<lparr>bulkCalls := bulkCalls p @ [outputV p],
                  hookCalls := (if fnBufferComplete c then hookCalls p @ [recordsProcessed p]
                                else hookCalls p),
                  outputV := []\<rparr>)"
  using assms
  by (auto simp: storeReply_def helperAddBuffer_def Let_def split: option.splits if_splits)

lemma helperAddBuffer_Reject:
  assumes "storeReply c p = Some (Reject m)"
  shows "helperAddBuffer c p =
           Inl (bulkError m,
                p\<lparr>bulkCalls := bulkCalls p @ [outputV p],
                  hookCalls := (if fnBufferComplete c then hookCalls p @ [recordsProcessed p]
                                else hookCalls p)\<rparr>)"
  using assms
  by (auto simp: storeReply_def helperAddBuffer_def Let_def split: option.splits if_splits)

lemma helperAddBuffer_no_client:
  assumes "storeReply c p = None"
  shows "\<exists>e. helperAddBuffer c p = Inl (Thrown e, p)"
  using assms
  by (auto simp: storeReply_def helperAddBuffer_def Let_def split: option.splits if_splits)

lemma helperAddBuffer_emptied_iff:
  assumes "outputV p \<noteq> []"
  shows "outputV (final (helperAddBuffer c p)) = [] \<longleftrightarrow> storeReply c p = Some Ack"
proof (cases "storeReply c p")
  case None
  from helperAddBuffer_no_client [OF this] assms None show ?thesis by auto
next
  case (Some reply)
  show ?thesis
  proof (cases reply)
    case Ack
    with Some helperAddBuffer_Ack [of c p] show ?thesis by simp
  next
    case (Reject m)
    with Some helperAddBuffer_Reject [of c p m] assms show ?thesis by simp
  qed
qed

lemma transformer_emptied_iff:
  "outputV (final (transformer c r p)) = [] \<longleftrightarrow>
     (if isFilteredOut (featureClassFilters c) r then outputV p = []
      else int (length (outputV p)) + 2 = bufferRecordsV c
           \<and> storeReply c (buffered (localV c) r p) = Some Ack)"
proof -
  have "outputV (buffered (localV c) r p) \<noteq> []" by (simp add: buffered_def)
  from helperAddBuffer_emptied_iff [OF this, of c] show ?thesis
    by (simp add: transformer_eq) (simp add: buffered_def)
qed

lemma onFinish_emptied_iff:
  "outputV (snd (onFinish c p)) = [] \<longleftrightarrow> outputV p = [] \<or> storeReply c p = Some Ack"
proof (cases "outputV p = []")
  case True
  then show ?thesis by (simp add: onFinish_def)
next
  case False
  from helperAddBuffer_emptied_iff [OF False, of c] False show ?thesis
    by (auto simp: onFinish_def final_def split: sum.splits prod.splits)
qed

lemma transformer_Inr_entries:
  assumes "transformer c r s = Inr s'"
  shows "concat (bulkCalls s') @ outputV s'
           = concat (bulkCalls s) @ outputV s
             @ (if isFilteredOut (featureClassFilters c) r then []
                else [directive (localV c) r, Document (lineOutput r)])"
  using assms
  by (auto simp: transformer_eq buffered_def committed_def split: if_splits
      dest!: helperAddBuffer_Inr)

lemma transformAll_Inr_entries:
  assumes "transformAll c rs s = Inr s'"
  shows "concat (bulkCalls s') @ outputV s'
           = concat (bulkCalls s) @ outputV s @ pairs (localV c) (filter (kept c) rs)"
  using assms
proof (induction rs arbitrary: s)
  case Nil
  then show ?case by simp
next
  case (Cons r rs)
  then obtain s1 where s1: "transformer c r s = Inr s1" and rest: "transformAll c rs s1 = Inr s'"
    by (auto split: sum.splits)
  from transformer_Inr_entries [OF s1] Cons.IH [OF rest] show ?case by simp
qed

lemma onFinish_Inr_entries:
  assumes "onFinish c s = (Inr r, s')"
  shows "outputV s' = [] \<and> concat (bulkCalls s') = concat (bulkCalls s) @ outputV s"
  using assms
  by (auto simp: onFinish_def committed_def split: if_splits sum.splits prod.splits
      dest!: helperAddBuffer_Inr)

lemma pipeRecords_Inr_entries:
  assumes "pipeRecords c rs s = (Inr r, s')"
  shows "outputV s' = []
       \<and> concat (bulkCalls s') = concat (bulkCalls s) @ outputV s
                                  @ pairs (localV c) (filter (kept c) rs)"
proof -
  from assms obtain s1 where s1: "transformAll c rs s = Inr s1" and fin: "onFinish c s1 = (Inr r, s')"
    by (auto simp: pipeRecords_def split: sum.splits prod.splits)
  from transformAll_Inr_entries [OF s1] onFinish_Inr_entries [OF fin] show ?thesis by simp
qed

section \<open>The commit buffer\<close>

text \<open>
  C1: in every invocation of \<open>addFileToElastic\<close>, whatever its outcome, every body
  passed to \<open>client.bulk\<close> has even length, and for every \<open>k\<close> the entry at \<open>2k\<close> is the
  directive (index, type, and field 0 of the record, the \<open>geonameId\<close>, as id) and the
  entry at \<open>2k + 1\<close> the document of one and the same record (its nineteen named
  fields and \<open>location\<close>), a record of the opened file that passes the class filter.
  When the invocation succeeds the buffer is empty at the end and the bodies committed
  are, one after the other, the pairs of the records that pass the filter, in the
  order of the file. The buffer is emptied exactly when a commit succeeds: a buffer
  that is not empty is empty after \<open>helperAddBuffer\<close> if and only if the client is
  there and the store acknowledges the bulk call; on an acknowledgement the buffer has
  been passed to the store and is reset, on a rejection it has been passed and stays
  as it is; the buffer is empty after a step of the handler exactly when the record is
  filtered out and the buffer was empty, or the record is kept, the buffer reaches
  the threshold and the store acknowledges the commit of the buffer with the record's
  pair; it is empty after the \<open>finish\<close> listener exactly when it was empty or the
  store acknowledges its commit; and a step of the handler that makes no bulk call
  only appends to it.
\<close>

theorem bulk_body_pairs:
  assumes "addFileToElastic l fs countryCode opts = (res, s)"
  shows "(\<forall>b\<in>set (bulkCalls s).
            even (length b)
            \<and> (\<forall>k. 2 * k + 1 < length b \<longrightarrow>
                 (\<exists>r. b ! (2 * k) = Directive (elasticIndex l) (elasticType l) (fieldAt r 0)
                     \<and> b ! (2 * k + 1) = Document (documentOf r)
                     \<and> \<not> isFilteredOut (classFilters opts) r
                     \<and> (\<exists>d n records. opened s = [(d, n)] \<and> fs d n = Content records
                                       \<and> r \<in> set records))))
       \<and> (\<forall>r. res = Inr r \<longrightarrow>
             outputV s = []
             \<and> (\<exists>d n records. opened s = [(d, n)] \<and> fs d n = Content records
                  \<and> concat (bulkCalls s)
                      = concat (map (\<lambda>x. [Directive (elasticIndex l) (elasticType l) (fieldAt x 0),
                                          Document (documentOf x)])
                                (filter (\<lambda>x. \<not> isFilteredOut (classFilters opts) x) records))))
       \<and> (\<forall>c p. outputV p \<noteq> [] \<longrightarrow>
             (outputV (final (helperAddBuffer c p)) = [] \<longleftrightarrow>
                (testMode c \<or> client (localV c) \<noteq> None)
                \<and> (\<exists>bulk. clientV c = Some bulk \<and> bulk (bulkCalls p) (outputV p) = Ack)))
       \<and> (\<forall>c p bulk. (testMode c \<or> client (localV c) \<noteq> None) \<and> clientV c = Some bulk
               \<and> bulk (bulkCalls p) (outputV p) = Ack \<longrightarrow>
             (\<exists>p'. helperAddBuffer c p = Inr p' \<and> outputV p' = []
                   \<and> bulkCalls p' = bulkCalls p @ [outputV p]))
       \<and> (\<forall>c p bulk m. (testMode c \<or> client (localV c) \<noteq> None) \<and> clientV c = Some bulk
               \<and> bulk (bulkCalls p) (outputV p) = Reject m \<longrightarrow>
             (\<exists>h p'. helperAddBuffer c p = Inl (h, p') \<and> outputV p' = outputV p
                     \<and> bulkCalls p' = bulkCalls p @ [outputV p]))
       \<and> (\<forall>c r p. outputV (final (transformer c r p)) = [] \<longleftrightarrow>
             (if isFilteredOut (featureClassFilters c) r then outputV p = []
              else int (length (outputV p)) + 2 = bufferRecordsV c
                   \<and> (testMode c \<or> client (localV c) \<noteq> None)
                   \<and> (\<exists>bulk. clientV c = Some bulk
                         \<and> bulk (bulkCalls p)
                              (outputV p @ [Directive (elasticIndex (localV c))
                                              (elasticType (localV c)) (fieldAt r 0),
                                            Document (documentOf r)]) = Ack)))
       \<and> (\<forall>c p. outputV (snd (onFinish c p)) = [] \<longleftrightarrow>
             outputV p = []
             \<or> (testMode c \<or> client (localV c) \<noteq> None)
               \<and> (\<exists>bulk. clientV c = Some bulk \<and> bulk (bulkCalls p) (outputV p) = Ack))
       \<and> (\<forall>c p p'. helperAddBuffer c p = Inr p' \<longrightarrow>
             outputV p' = [] \<and> bulkCalls p' = bulkCalls p @ [outputV p])
       \<and> (\<forall>c p h p'. helperAddBuffer c p = Inl (h, p') \<longrightarrow> outputV p' = outputV p)
       \<and> (\<forall>c r p. bulkCalls (final (transformer c r p)) = bulkCalls p \<longrightarrow>
             (\<exists>es. outputV (final (transformer c r p)) = outputV p @ es))"
proof -
  from addFileToElastic_wellPaired [of l fs opts countryCode] assms
  have wp: "wellPaired l (sourceRecords fs opts s) s" by simp
  have 1: "\<forall>b\<in>set (bulkCalls s).
            even (length b)
            \<and> (\<forall>k. 2 * k + 1 < length b \<longrightarrow>
                 (\<exists>r. b ! (2 * k) = Directive (elasticIndex l) (elasticType l) (fieldAt r 0)
                     \<and> b ! (2 * k + 1) = Document (documentOf r)
                     \<and> \<not> isFilteredOut (classFilters opts) r
                     \<and> (\<exists>d n records. opened s = [(d, n)] \<and> fs d n = Content records
                                       \<and> r \<in> set records)))"
  proof (intro ballI conjI allI impI)
    fix b assume "b \<in> set (bulkCalls s)"
    with wp have p: "paired l (sourceRecords fs opts s) b" by (simp add: wellPaired_def)
    then show "even (length b)" by (rule paired_even)
    fix k assume "2 * k + 1 < length b"
    from paired_nth [OF p this]
    show "\<exists>r. b ! (2 * k) = Directive (elasticIndex l) (elasticType l) (fieldAt r 0)
                     \<and> b ! (2 * k + 1) = Document (documentOf r)
                     \<and> \<not> isFilteredOut (classFilters opts) r
                     \<and> (\<exists>d n records. opened s = [(d, n)] \<and> fs d n = Content records
                                       \<and> r \<in> set records)"
      by (auto simp: sourceRecords_def directive_eq lineOutput_documentOf)
  qed
  have 2: "\<forall>r. res = Inr r \<longrightarrow>
             outputV s = []
             \<and> (\<exists>d n records. opened s = [(d, n)] \<and> fs d n = Content records
                  \<and> concat (bulkCalls s)
                      = concat (map (\<lambda>x. [Directive (elasticIndex l) (elasticType l) (fieldAt x 0),
                                          Document (documentOf x)])
                                (filter (\<lambda>x. \<not> isFilteredOut (classFilters opts) x) records)))"
  proof (intro allI impI)
    fix r assume "res = Inr r"
    with assms have ok: "addFileToElastic l fs countryCode opts = (Inr r, s)" by simp
    from addFileToElastic_Inr [OF ok] obtain d n records t where
      c: "fs d n = Content records" and o: "opened s = [(d, n)]" and
      run: "pipeRecords (closure l t opts) records (pipeline_init\<lparr>opened := [(d, n)]\<rparr>) = (Inr r, s)"
      by blast
    from pipeRecords_Inr_entries [OF run]
    have e: "outputV s = []"
      and b: "concat (bulkCalls s)
                = pairs l (filter (\<lambda>x. \<not> isFilteredOut (classFilters opts) x) records)"
      by (simp_all add: pipeline_init_def)
    from e b c o show "outputV s = []
             \<and> (\<exists>d n records. opened s = [(d, n)] \<and> fs d n = Content records
                  \<and> concat (bulkCalls s)
                      = concat (map (\<lambda>x. [Directive (elasticIndex l) (elasticType l) (fieldAt x 0),
                                          Document (documentOf x)])
                                (filter (\<lambda>x. \<not> isFilteredOut (classFilters opts) x) records)))"
      unfolding pairs_eq by blast
  qed
  have 3: "\<forall>c p. outputV p \<noteq> [] \<longrightarrow>
             (outputV (final (helperAddBuffer c p)) = [] \<longleftrightarrow>
                (testMode c \<or> client (localV c) \<noteq> None)
                \<and> (\<exists>bulk. clientV c = Some bulk \<and> bulk (bulkCalls p) (outputV p) = Ack))"
    by (simp add: helperAddBuffer_emptied_iff storeReply_Ack_iff)
  have 4: "\<forall>c p bulk. (testMode c \<or> client (localV c) \<noteq> None) \<and> clientV c = Some bulk
               \<and> bulk (bulkCalls p) (outputV p) = Ack \<longrightarrow>
             (\<exists>p'. helperAddBuffer c p = Inr p' \<and> outputV p' = []
                   \<and> bulkCalls p' = bulkCalls p @ [outputV p])"
  proof (intro allI impI)
    fix c :: ctx and p :: pipeline and bulk
    assume "(testMode c \<or> client (localV c) \<noteq> None) \<and> clientV c = Some bulk
               \<and> bulk (bulkCalls p) (outputV p) = Ack"
    then have "storeReply c p = Some Ack" by (auto simp: storeReply_Ack_iff)
    from helperAddBuffer_Ack [OF this]
    show "\<exists>p'. helperAddBuffer c p = Inr p' \<and> outputV p' = []
                   \<and> bulkCalls p' = bulkCalls p @ [outputV p]"
      by simp
  qed
  have 5: "\<forall>c p bulk m. (testMode c \<or> client (localV c) \<noteq> None) \<and> clientV c = Some bulk
               \<and> bulk (bulkCalls p) (outputV p) = Reject m \<longrightarrow>
             (\<exists>h p'. helperAddBuffer c p = Inl (h, p') \<and> outputV p' = outputV p
                     \<and> bulkCalls p' = bulkCalls p @ [outputV p])"
  proof (intro allI impI)
    fix c :: ctx and p :: pipeline and bulk m
    assume "(testMode c \<or> client (localV c) \<noteq> None) \<and> clientV c = Some bulk
               \<and> bulk (bulkCalls p) (outputV p) = Reject m"
    then have "storeReply c p = Some (Reject m)" by (auto simp: storeReply_Reject_iff)
    from helperAddBuffer_Reject [OF this]
    show "\<exists>h p'. helperAddBuffer c p = Inl (h, p') \<and> outputV p' = outputV p
                     \<and> bulkCalls p' = bulkCalls p @ [outputV p]"
      by simp
  qed
  have 6: "\<forall>c r p. outputV (final (transformer c r p)) = [] \<longleftrightarrow>
             (if isFilteredOut (featureClassFilters c) r then outputV p = []
              else int (length (outputV p)) + 2 = bufferRecordsV c
                   \<and> (testMode c \<or> client (localV c) \<noteq> None)
                   \<and> (\<exists>bulk. clientV c = Some bulk
                         \<and> bulk (bulkCalls p)
                              (outputV p @ [Directive (elasticIndex (localV c))
                                              (elasticType (localV c)) (fieldAt r 0),
                                            Document (documentOf r)]) = Ack))"
    by (simp add: transformer_emptied_iff storeReply_Ack_iff buffered_def directive_eq
        lineOutput_documentOf)
  have 7: "\<forall>c p. outputV (snd (onFinish c p)) = [] \<longleftrightarrow>
             outputV p = []
             \<or> (testMode c \<or> client (localV c) \<noteq> None)
               \<and> (\<exists>bulk. clientV c = Some bulk \<and> bulk (bulkCalls p) (outputV p) = Ack)"
    by (simp add: onFinish_emptied_iff storeReply_Ack_iff)
  have 8: "\<forall>c p p'. helperAddBuffer c p = Inr p' \<longrightarrow>
             outputV p' = [] \<and> bulkCalls p' = bulkCalls p @ [outputV p]"
    by (auto dest!: helperAddBuffer_Inr simp: committed_def)
  have 9: "\<forall>c p h p'. helperAddBuffer c p = Inl (h, p') \<longrightarrow> outputV p' = outputV p"
    by (auto dest!: helperAddBuffer_Inl simp: committed_def)
  have 10: "\<forall>c r p. bulkCalls (final (transformer c r p)) = bulkCalls p \<longrightarrow>
             (\<exists>es. outputV (final (transformer c r p)) = outputV p @ es)"
  proof (intro allI impI)
    fix c r p
    assume same: "bulkCalls (final (transformer c r p)) = bulkCalls p"
    show "\<exists>es. outputV (final (transformer c r p)) = outputV p @ es"
      using same helperAddBuffer_cases [of c "buffered (localV c) r p"]
      by (auto simp: transformer_eq buffered_def committed_def split: if_splits)
  qed
  show ?thesis
    by (intro conjI) (fact 1 2 3 4 5 6 7 8 9 10)+
qed

text \<open>
  An instance: test mode, three records of which two pass the filter \<open>['P']\<close>, a
  threshold of one record; two bodies of two entries are committed and the buffer is
  empty at the end. With a client that rejects, the buffer is not emptied.
\<close>

theorem bulk_body_pairs_witness:
  "addFileToElastic (local_init ''/tmp'') (testFiles exampleRecords) (JStr ''00'' :: unit jsval)
       (exampleOptions (Some 1) (Some [''P'']))
     = (Inr \<lparr>processed = 3, added = 2\<rparr>,
        snd (addFileToElastic (local_init ''/tmp'') (testFiles exampleRecords)
               (JStr ''00'' :: unit jsval) (exampleOptions (Some 1) (Some [''P'']))))
   \<and> map length (bulkCalls (snd (addFileToElastic (local_init ''/tmp'') (testFiles exampleRecords)
               (JStr ''00'' :: unit jsval) (exampleOptions (Some 1) (Some [''P''])))))
       = [2, 2]
   \<and> outputV (snd (addFileToElastic (local_init ''/tmp'') (testFiles exampleRecords)
               (JStr ''00'' :: unit jsval) (exampleOptions (Some 1) (Some [''P''])))) = []
   \<and> (\<exists>r. hd (bulkCalls (snd (addFileToElastic (local_init ''/tmp'')
                  (testFiles exampleRecords) (JStr ''00'' :: unit jsval)
                  (exampleOptions (Some 1) (Some [''P'']))))) ! 0
              = Directive ''geonames'' ''geoname'' (fieldAt r 0)
          \<and> hd (bulkCalls (snd (addFileToElastic (local_init ''/tmp'')
                  (testFiles exampleRecords) (JStr ''00'' :: unit jsval)
                  (exampleOptions (Some 1) (Some [''P'']))))) ! 1
              = Document (documentOf r)
          \<and> r \<in> set exampleRecords)
   \<and> outputV (final (helperAddBuffer
         (closure ((local_init ''/tmp'')\<lparr>client := Some (rejectingClient ''timeout'')\<rparr>) False
            (exampleOptions None None))
         (buffered (local_init ''/tmp'') (placeRecord ''1'' ''Alofi'') pipeline_init))) \<noteq> []"
proof -
  let ?run = "addFileToElastic (local_init ''/tmp'') (testFiles exampleRecords)
               (JStr ''00'' :: unit jsval) (exampleOptions (Some 1) (Some [''P'']))"
  let ?c = "closure ((local_init ''/tmp'')\<lparr>client := Some (rejectingClient ''timeout'')\<rparr>) False
            (exampleOptions None None)"
  let ?p = "buffered (local_init ''/tmp'') (placeRecord ''1'' ''Alofi'') pipeline_init"
  have f: "fst ?run = Inr \<lparr>processed = 3, added = 2\<rparr>" by code_simp
  have h: "?run = (Inr \<lparr>processed = 3, added = 2\<rparr>, snd ?run)"
    by (simp add: prod_eq_iff f)
  note t = bulk_body_pairs [OF h]
  note t1 = t [THEN conjunct1]
  note t2 = t [THEN conjunct2, THEN conjunct1]
  note t3 = t [THEN conjunct2, THEN conjunct2, THEN conjunct1]
  have n: "map length (bulkCalls (snd ?run)) = [2, 2]" by code_simp
  then have ne: "bulkCalls (snd ?run) \<noteq> []" by auto
  then have b: "hd (bulkCalls (snd ?run)) \<in> set (bulkCalls (snd ?run))" by simp
  from n ne have len: "2 * 0 + 1 < length (hd (bulkCalls (snd ?run)))"
    by (cases "bulkCalls (snd ?run)") auto
  from t1 b len
  obtain r d nm records where
    r: "hd (bulkCalls (snd ?run)) ! (2 * 0)
          = Directive (elasticIndex (local_init ''/tmp'')) (elasticType (local_init ''/tmp''))
              (fieldAt r 0)"
       "hd (bulkCalls (snd ?run)) ! (2 * 0 + 1) = Document (documentOf r)"
       "testFiles exampleRecords d nm = Content records" "r \<in> set records"
    by blast
  from r(3) have "records = exampleRecords"
    by (simp add: testFiles_def filesIn_def split: if_splits)
  with r have pair: "hd (bulkCalls (snd ?run)) ! 0 = Directive ''geonames'' ''geoname'' (fieldAt r 0)
      \<and> hd (bulkCalls (snd ?run)) ! 1 = Document (documentOf r) \<and> r \<in> set exampleRecords"
    by (simp add: local_init_def)
  from t2 have e: "outputV (snd ?run) = []" by blast
  have ne': "outputV ?p \<noteq> []" by (simp add: buffered_def)
  from t3 have "outputV ?p \<noteq> [] \<longrightarrow>
             (outputV (final (helperAddBuffer ?c ?p)) = [] \<longleftrightarrow>
                (testMode ?c \<or> client (localV ?c) \<noteq> None)
                \<and> (\<exists>bulk. clientV ?c = Some bulk \<and> bulk (bulkCalls ?p) (outputV ?p) = Ack))"
    by blast
  with ne' have rej: "outputV (final (helperAddBuffer ?c ?p)) \<noteq> []"
    by (simp add: closure_def rejectingClient_def)
  from h n e pair rej show ?thesis by blast
qed

section \<open>The flush boundary\<close>

text \<open>
  C2, as the code has it: with \<open>bufferRecords = n\<close>, \<open>n\<close> at least 2, a hook, a store
  that acknowledges every commit and exactly \<open>2n + 1\<close> records that pass the class
  filter, two bulk calls are made while the records stream through and one by the
  \<open>finish\<close> listener; the hook is called three times, with the number of records read
  when the \<open>n\<close>-th and the \<open>2n\<close>-th kept record were read and with the number of all
  records; the callback gets \<open>processed\<close> = all records and \<open>added\<close> = \<open>2n + 1\<close>.
\<close>

theorem flush_boundary:
  fixes n :: nat
  assumes c: "c = closure l t opts"
    and N: "bufferRecords opts = Some (int n)" "2 \<le> n"
    and hook: "bufferAdded opts"
    and ack: "acks c"
    and recs: "length (filter (\<lambda>r. \<not> isFilteredOut (classFilters opts) r) records) = 2 * n + 1"
    and s0: "s0 = pipeline_init\<lparr>opened := files\<rparr>"
  shows "flushCounts c records s0 = Some (2, 1)
       \<and> hookCalls (snd (pipeRecords c records s0))
           = [readUntilKept (\<lambda>r. \<not> isFilteredOut (classFilters opts) r) n records,
              readUntilKept (\<lambda>r. \<not> isFilteredOut (classFilters opts) r) (2 * n) records,
              length records]
       \<and> fst (pipeRecords c records s0) = Inr \<lparr>processed = length records, added = 2 * n + 1\<rparr>"
proof -
  let ?P = "\<lambda>r. \<not> isFilteredOut (classFilters opts) r"
  have P: "featureClassFilters c = classFilters opts" by (simp add: c)
  have T: "bufferRecordsV c = 2 * int n"
    using N by (simp add: c closure_def)
  have h: "fnBufferComplete c" using hook by (simp add: c)
  from N(2) recs have "n - 1 < length (filter ?P records)" by simp
  from split_at_kept [OF this] obtain A a B where
    r1: "records = A @ a # B" and a: "?P a" and A: "length (filter ?P A) = n - 1"
    and B: "length (filter ?P B) = length (filter ?P records) - Suc (n - 1)"
    and p1: "\<And>k. readUntilKept ?P (Suc (n - 1) + k) records = Suc (length A) + readUntilKept ?P k B"
    by blast
  from B recs N(2) have B': "length (filter ?P B) = n + 1" by simp
  then have "n - 1 < length (filter ?P B)" by simp
  from split_at_kept [OF this] obtain A2 b C where
    r2: "B = A2 @ b # C" and b: "?P b" and A2: "length (filter ?P A2) = n - 1"
    and C: "length (filter ?P C) = length (filter ?P B) - Suc (n - 1)"
    and p2: "\<And>k. readUntilKept ?P (Suc (n - 1) + k) B = Suc (length A2) + readUntilKept ?P k C"
    by blast
  from C B' N(2) have C': "length (filter ?P C) = 1" by simp
  from N(2) have Sn: "Suc (n - 1) = n" by simp
  from p1 [of 0] Sn have q1: "readUntilKept ?P n records = Suc (length A)" by simp
  from p2 [of 0] Sn have "readUntilKept ?P n B = Suc (length A2)" by simp
  with p1 [of n] Sn have q2: "readUntilKept ?P (2 * n) records = Suc (length A) + Suc (length A2)"
    by (simp add: mult_2)
  have len: "length records = Suc (length A) + Suc (length A2) + length C"
    by (simp add: r1 r2)
  define s1 where "s1 = s0\<lparr>recordsProcessed := recordsProcessed s0 + length A + 1,
                  recordsAdded := recordsAdded s0 + length (filter (kept c) A) + 1,
                  bulkCalls := bulkCalls s0 @ [outputV s0 @ pairs (localV c) (filter (kept c) A @ [a])],
                  hookCalls := (if fnBufferComplete c
                                then hookCalls s0 @ [recordsProcessed s0 + length A + 1]
                                else hookCalls s0),
                  outputV := []\<rparr>"
  have run1: "transformAll c (A @ [a]) s0 = Inr s1"
    unfolding s1_def
    by (rule transformAll_flush [OF ack]) (use a A N(2) in \<open>simp_all add: P T s0 pipeline_init_def\<close>)
  define s2 where "s2 = s1\<lparr>recordsProcessed := recordsProcessed s1 + length A2 + 1,
                  recordsAdded := recordsAdded s1 + length (filter (kept c) A2) + 1,
                  bulkCalls := bulkCalls s1 @ [outputV s1 @ pairs (localV c) (filter (kept c) A2 @ [b])],
                  hookCalls := (if fnBufferComplete c
                                then hookCalls s1 @ [recordsProcessed s1 + length A2 + 1]
                                else hookCalls s1),
                  outputV := []\<rparr>"
  have run2: "transformAll c (A2 @ [b]) s1 = Inr s2"
    unfolding s2_def
    by (rule transformAll_flush [OF ack]) (use b A2 N(2) in \<open>simp_all add: P T s1_def\<close>)
  define s3 where "s3 = s2\<lparr>recordsProcessed := recordsProcessed s2 + length C,
                  recordsAdded := recordsAdded s2 + length (filter (kept c) C),
                  outputV := outputV s2 @ pairs (localV c) (filter (kept c) C)\<rparr>"
  have run3: "transformAll c C s2 = Inr s3"
    unfolding s3_def
    by (rule transformAll_below_threshold) (use C' N(2) in \<open>simp add: P T s2_def\<close>)
  have recs_eq: "records = (A @ [a]) @ (A2 @ [b]) @ C" by (simp add: r1 r2)
  have run23: "transformAll c ((A2 @ [b]) @ C) s1 = Inr s3"
    by (simp only: transformAll_append [of c "A2 @ [b]" C s1] run2 run3 sum.case)
  have run: "transformAll c records s0 = Inr s3"
    unfolding recs_eq
    by (simp only: transformAll_append [of c "A @ [a]" "(A2 @ [b]) @ C" s0] run1 run23 sum.case)
  have out3: "length (outputV s3) = 2"
    using C' by (simp add: s3_def s2_def P)
  have calls3: "length (bulkCalls s3) = 2" "bulkCalls s0 = []"
    by (simp_all add: s3_def s2_def s1_def s0 pipeline_init_def)
  have hooks3: "hookCalls s3 = [Suc (length A), Suc (length A) + Suc (length A2)]"
    using h by (simp add: s3_def s2_def s1_def s0 pipeline_init_def)
  have proc3: "recordsProcessed s3 = length records" "recordsAdded s3 = 2 * n + 1"
    using A A2 C' N(2) by (simp_all add: s3_def s2_def s1_def s0 pipeline_init_def len P)
  have fin: "onFinish c s3 = (Inr (result s3), (committed True s3)\<lparr>outputV := []\<rparr>)"
    using out3 h by (simp add: onFinish_def helperAddBuffer_acks [OF ack] result_def committed_def)
  have "flushCounts c records s0 = Some (2, 1)"
    by (simp add: flushCounts_def run fin calls3 committed_def)
  moreover have "hookCalls (snd (pipeRecords c records s0))
           = [readUntilKept ?P n records, readUntilKept ?P (2 * n) records, length records]"
    by (simp add: pipeRecords_def run fin committed_def hooks3 proc3 q1 q2)
  moreover have "fst (pipeRecords c records s0) = Inr \<lparr>processed = length records, added = 2 * n + 1\<rparr>"
    by (simp add: pipeRecords_def run fin result_def proc3)
  ultimately show ?thesis by blast
qed

text \<open>
  An instance with \<open>n = 2\<close>: six records of which the third is filtered out; the hook
  sees 2, 5 and 6.
\<close>

theorem flush_boundary_witness:
  "bufferRecords (exampleOptions (Some 2) (Some [''P''])) = Some (int 2) \<and> (2::nat) \<le> 2
   \<and> acks (closure (local_init ''/tmp'') True (exampleOptions (Some 2) (Some [''P''])))
   \<and> length (filter (\<lambda>r. \<not> isFilteredOut (classFilters (exampleOptions (Some 2) (Some [''P'']))) r)
               sixRecords) = 2 * 2 + 1
   \<and> flushCounts (closure (local_init ''/tmp'') True (exampleOptions (Some 2) (Some [''P''])))
        sixRecords (pipeline_init\<lparr>opened := [(''./test/data/'', ''NU.txt'')]\<rparr>) = Some (2, 1)
   \<and> hookCalls (snd (pipeRecords
         (closure (local_init ''/tmp'') True (exampleOptions (Some 2) (Some [''P''])))
         sixRecords (pipeline_init\<lparr>opened := [(''./test/data/'', ''NU.txt'')]\<rparr>))) = [2, 5, 6]"
proof -
  let ?opts = "exampleOptions (Some 2) (Some [''P''])"
  let ?c = "closure (local_init ''/tmp'') True ?opts"
  let ?s0 = "pipeline_init\<lparr>opened := [(''./test/data/'', ''NU.txt'')]\<rparr>"
  have b: "bufferRecords ?opts = Some (int 2)" by (simp add: exampleOptions_def)
  have hk: "bufferAdded ?opts" by (simp add: exampleOptions_def)
  have a: "acks ?c" by (simp add: acks_def closure_def mockClient_def)
  have k: "length (filter (\<lambda>r. \<not> isFilteredOut (classFilters ?opts) r) sixRecords) = 2 * 2 + 1"
    by code_simp
  have p: "readUntilKept (\<lambda>r. \<not> isFilteredOut (classFilters ?opts) r) 2 sixRecords = 2"
    "readUntilKept (\<lambda>r. \<not> isFilteredOut (classFilters ?opts) r) (2 * 2) sixRecords = 5"
    "length sixRecords = 6"
    by code_simp+
  from flush_boundary [OF refl b _ hk a k refl, of "[(''./test/data/'', ''NU.txt'')]"] p
  have "flushCounts ?c sixRecords ?s0 = Some (2, 1)
      \<and> hookCalls (snd (pipeRecords ?c sixRecords ?s0)) = [2, 5, 6]"
    by simp
  with b a k show ?thesis by simp
qed

text \<open>
  With \<open>bufferRecords = 1\<close> the claim of C2 fails: each of the \<open>2 \<cdot> 1 + 1 = 3\<close> records
  fills the buffer to the doubled threshold 2, so three bulk calls are made while the
  records stream through, the buffer is empty at the end and the \<open>finish\<close> listener
  makes none.
\<close>

theorem flush_boundary_counterexample:
  "length exampleRecords = 2 * 1 + 1
   \<and> flushCounts (closure (local_init ''/tmp'') True (exampleOptions (Some 1) None))
        exampleRecords (pipeline_init\<lparr>opened := [(''./test/data/'', ''NU.txt'')]\<rparr>)
      = Some (3, 0)
   \<and> flushCounts (closure (local_init ''/tmp'') True (exampleOptions (Some 1) None))
        exampleRecords (pipeline_init\<lparr>opened := [(''./test/data/'', ''NU.txt'')]\<rparr>)
      \<noteq> Some (2, 1)"
  by code_simp

section \<open>Commit failures\<close>

text \<open>
  C3: when the store rejects a commit with a message that contains "index is missing"
  or "type is missing", the bulk callback reads the undeclared identifier
  \<open>elasicIndex\<close> (or \<open>elasicType\<close>) while it builds the message, and the
  \<open>ReferenceError\<close> leaves the callback: the caller's callback is not invoked and
  gets no "Missing schema" error. Evaluated on a file of three records and a client
  that rejects with these messages.
\<close>

theorem missing_schema_throws_ReferenceError:
  "fst (addFileToElastic
          ((local_init ''/tmp'')\<lparr>client := Some (rejectingClient ''index is missing'')\<rparr>)
          (filesIn ''/tmp'' exampleRecords) (JStr ''nu'' :: unit jsval) (exampleOptions None None))
     = Inl (Thrown (ReferenceError ''elasicIndex''))
   \<and> fst (addFileToElastic
          ((local_init ''/tmp'')\<lparr>client := Some (rejectingClient ''type is missing'')\<rparr>)
          (filesIn ''/tmp'' exampleRecords) (JStr ''nu'' :: unit jsval) (exampleOptions None None))
     = Inl (Thrown (ReferenceError ''elasicType''))"
  by code_simp

text \<open>So the run ends in an exception, not in a call of the callback.\<close>

theorem missing_schema_throws_ReferenceError_witness:
  "\<exists>e. fst (addFileToElastic
          ((local_init ''/tmp'')\<lparr>client := Some (rejectingClient ''index is missing'')\<rparr>)
          (filesIn ''/tmp'' exampleRecords) (JStr ''nu'' :: unit jsval) (exampleOptions None None))
        = Inl (Thrown e)"
  using missing_schema_throws_ReferenceError by blast

section \<open>Errors of the catalog download\<close>

text \<open>
  C4: \<open>getGeoNameCountries\<close> calls the callback only as \<open>cb(null, countries)\<close>; when
  the download of the catalog fails the error event meets no listener and the callback
  is not invoked with the error. Evaluated on a download that fails.
\<close>

theorem catalog_download_error_not_called_back:
  "getGeoNameCountries (local_init ''/tmp'')
     (\<lambda>url. StreamError (DownloadError ''getaddrinfo ENOTFOUND download.geonames.org'')) False
   = Inl (Unhandled (DownloadError ''getaddrinfo ENOTFOUND download.geonames.org''))"
  by code_simp

text \<open>In particular the callback is not invoked with the error of the download.\<close>

theorem catalog_download_error_not_called_back_witness:
  "getGeoNameCountries (local_init ''/tmp'')
     (\<lambda>url. StreamError (DownloadError ''getaddrinfo ENOTFOUND download.geonames.org'')) False
   \<noteq> Inl (Failed (DownloadError ''getaddrinfo ENOTFOUND download.geonames.org''))"
  using catalog_download_error_not_called_back by simp

section \<open>Counters\<close>

text \<open>
  C5: when \<open>addFileToElastic\<close> succeeds (the callback gets the counters), it has opened
  one file, \<open>processed\<close> is the number of records of that file, \<open>added\<close> the number of
  those that pass the class filter, so \<open>added\<close> is at most \<open>processed\<close>, and they are
  equal when no class filter or an empty list is given. Every run of the handler on a
  record adds one to \<open>recordsProcessed\<close>, and one to \<open>recordsAdded\<close> exactly when the
  record passes the class filter.
\<close>

theorem processed_ge_added:
  assumes "addFileToElastic l fs countryCode opts = (Inr r, s)"
  shows "(\<exists>d n records. opened s = [(d, n)] \<and> fs d n = Content records
           \<and> processed r = length records
           \<and> added r = length (filter (\<lambda>x. \<not> isFilteredOut (classFilters opts) x) records)
           \<and> added r \<le> processed r
           \<and> (classFilters opts = None \<or> classFilters opts = Some [] \<longrightarrow> added r = processed r))
       \<and> (\<forall>c x p. recordsProcessed (final (transformer c x p)) = recordsProcessed p + 1
             \<and> recordsAdded (final (transformer c x p))
                 = recordsAdded p + (if isFilteredOut (featureClassFilters c) x then 0 else 1))"
proof -
  from addFileToElastic_Inr [OF assms] obtain d n records t where
    c: "fs d n = Content records" and o: "opened s = [(d, n)]" and
    run: "pipeRecords (closure l t opts) records (pipeline_init\<lparr>opened := [(d, n)]\<rparr>) = (Inr r, s)"
    by blast
  have f: "featureClassFilters (closure l t opts) = classFilters opts"
    by (simp add: closure_def)
  from pipeRecords_Inr_counters [OF run] f
  have p: "processed r = length records"
    and a: "added r = length (filter (\<lambda>x. \<not> isFilteredOut (classFilters opts) x) records)"
    by (simp_all add: pipeline_init_def)
  have le: "added r \<le> processed r" unfolding p a by simp
  have eq: "classFilters opts = None \<or> classFilters opts = Some [] \<longrightarrow> added r = processed r"
    unfolding p a by (auto simp: isFilteredOut_def)
  from c o p a le eq transformer_final_counters show ?thesis by blast
qed

text \<open>An instance: test mode, three records, two of class \<open>P\<close>, filter \<open>['P']\<close>.\<close>

theorem processed_ge_added_witness:
  "addFileToElastic (local_init ''/tmp'') (testFiles exampleRecords) (JStr ''00'' :: unit jsval)
       (exampleOptions None (Some [''P'']))
     = (Inr \<lparr>processed = 3, added = 2\<rparr>,
        snd (addFileToElastic (local_init ''/tmp'') (testFiles exampleRecords)
               (JStr ''00'' :: unit jsval) (exampleOptions None (Some [''P'']))))
   \<and> added \<lparr>processed = 3, added = 2\<rparr> \<le> processed \<lparr>processed = 3, added = 2\<rparr>"
proof -
  let ?run = "addFileToElastic (local_init ''/tmp'') (testFiles exampleRecords)
               (JStr ''00'' :: unit jsval) (exampleOptions None (Some [''P'']))"
  have f: "fst ?run = Inr \<lparr>processed = 3, added = 2\<rparr>" by code_simp
  have h: "?run = (Inr \<lparr>processed = 3, added = 2\<rparr>, snd ?run)"
    by (simp add: prod_eq_iff f)
  from processed_ge_added [OF h]
  have "added \<lparr>processed = 3, added = 2\<rparr> \<le> processed \<lparr>processed = 3, added = 2\<rparr>"
    by blast
  with h show ?thesis by blast
qed

section \<open>The class filter\<close>

text \<open>
  C6: with a class filter list that is present and not empty, the handler buffers a
  record and counts it in \<open>recordsAdded\<close> (and commits the buffer when it has reached
  the threshold) if its feature class equals one of the filter values, and only
  counts it in \<open>recordsProcessed\<close> otherwise. With the filter \<open>['P']\<close> and a test fixture
  of 109 records of which 45 have the feature class \<open>P\<close>, the test-mode run calls back
  with \<open>processed\<close> = 109 and \<open>added\<close> = 45.
\<close>

theorem classFilters_keep_matching:
  assumes "classFilters opts = Some fs" "fs \<noteq> []"
  shows "transformer (closure l t opts) r s =
           (if \<exists>f\<in>set fs. mapped r ''featureClass'' = Some f
            then (if int (length (outputV s)) + 2 = bufferRecordsV (closure l t opts)
                  then helperAddBuffer (closure l t opts) (buffered l r s)
                  else Inr (buffered l r s))
            else Inr (s\<lparr>recordsProcessed := recordsProcessed s + 1\<rparr>))
       \<and> (fs = [''P''] \<and> files ''./test/data/'' ''NU.txt'' = Content records
          \<and> length records = 109
          \<and> length (filter (\<lambda>x. mapped x ''featureClass'' = Some ''P'') records) = 45
          \<longrightarrow> fst (addFileToElastic l files (JStr ''00'' :: unit jsval) opts)
                = Inr \<lparr>processed = 109, added = 45\<rparr>)"
proof -
  have k: "\<And>x. isFilteredOut (classFilters opts) x \<longleftrightarrow> \<not> (\<exists>f\<in>set fs. mapped x ''featureClass'' = Some f)"
    using assms by (simp add: isFilteredOut_iff mapped_featureClass)
  have 1: "transformer (closure l t opts) r s =
           (if \<exists>f\<in>set fs. mapped r ''featureClass'' = Some f
            then (if int (length (outputV s)) + 2 = bufferRecordsV (closure l t opts)
                  then helperAddBuffer (closure l t opts) (buffered l r s)
                  else Inr (buffered l r s))
            else Inr (s\<lparr>recordsProcessed := recordsProcessed s + 1\<rparr>))"
    by (simp add: transformer_eq k)
  have 2: "fst (addFileToElastic l files (JStr ''00'' :: unit jsval) opts)
                = Inr \<lparr>processed = 109, added = 45\<rparr>"
    if "fs = [''P'']" "files ''./test/data/'' ''NU.txt'' = Content records"
      "length records = 109"
      "length (filter (\<lambda>x. mapped x ''featureClass'' = Some ''P'') records) = 45"
  proof -
    from that(1) have "\<And>x. (\<not> isFilteredOut (classFilters opts) x) = (mapped x ''featureClass'' = Some ''P'')"
      by (simp add: k)
    with testMode_run [where fs = files and records = records and l = l and opts = opts] that(2,3,4)
    show ?thesis by simp
  qed
  from 1 2 show ?thesis by blast
qed

text \<open>An instance: a fixture of 45 records of class \<open>P\<close> and 64 of class \<open>A\<close>.\<close>

theorem classFilters_keep_matching_witness:
  "classFilters (exampleOptions None (Some [''P''])) = Some [''P''] \<and> [''P''] \<noteq> ([] :: string list)
   \<and> testFiles fixtureRecords ''./test/data/'' ''NU.txt'' = Content fixtureRecords
   \<and> length fixtureRecords = 109
   \<and> length (filter (\<lambda>x. mapped x ''featureClass'' = Some ''P'') fixtureRecords) = 45
   \<and> fst (addFileToElastic (local_init ''/tmp'') (testFiles fixtureRecords)
            (JStr ''00'' :: unit jsval) (exampleOptions None (Some [''P''])))
       = Inr \<lparr>processed = 109, added = 45\<rparr>"
proof -
  have c: "classFilters (exampleOptions None (Some [''P''])) = Some [''P'']"
    by (simp add: exampleOptions_def)
  have n: "[''P''] \<noteq> ([] :: string list)" by simp
  have f: "testFiles fixtureRecords ''./test/data/'' ''NU.txt'' = Content fixtureRecords"
    by (simp add: testFiles_def filesIn_def)
  have len: "length fixtureRecords = 109" by (simp add: fixtureRecords_def)
  have p: "length (filter (\<lambda>x. mapped x ''featureClass'' = Some ''P'') fixtureRecords) = 45"
    by (simp add: fixtureRecords_def mapped_featureClass fieldAt_def placeRecord_def
        areaRecord_def)
  from classFilters_keep_matching [OF c n, where files = "testFiles fixtureRecords"
      and records = fixtureRecords and l = "local_init ''/tmp''"] f len p
  have "fst (addFileToElastic (local_init ''/tmp'') (testFiles fixtureRecords)
            (JStr ''00'' :: unit jsval) (exampleOptions None (Some [''P''])))
       = Inr \<lparr>processed = 109, added = 45\<rparr>"
    by blast
  with c n f len p show ?thesis by blast
qed

section \<open>Invalid country codes\<close>

lemma invalidCountryCode_iff:
  "invalidCountryCode v \<longleftrightarrow> \<not> (\<exists>s. v = JStr s \<and> length s = 2)"
  by (cases v) (auto simp: invalidCountryCode_def)

text \<open>
  C7: a \<open>countryCode\<close> that is not a string of two characters (missing, of another type
  or of another length) makes \<open>addFileToElastic\<close> call back with the error
  "Invalid countryCode '<value>', should be two char string", whatever the module state,
  the file system and the options are, with no file opened, no bulk call and no hook call.
\<close>

theorem invalid_countryCode_fails_before_io:
  assumes "\<not> (\<exists>s. countryCode = JStr s \<and> length s = 2)"
  shows "addFileToElastic l fs countryCode opts =
           (Inl (Failed (Error (''Invalid countryCode '' @ sq @ js_toString countryCode @ sq
                                @ '', should be two char string''))), pipeline_init)
         \<and> opened pipeline_init = [] \<and> bulkCalls pipeline_init = []
         \<and> hookCalls pipeline_init = []"
  using assms
  by (simp add: addFileToElastic_def invalidCountryCode_iff pipeline_init_def)

theorem invalid_countryCode_fails_before_io_witness:
  "\<not> (\<exists>s. (JStr ''yes sir'' :: unit jsval) = JStr s \<and> length s = 2)
   \<and> addFileToElastic (local_init ''/tmp'') (\<lambda>d n. Content [[''1'']])
         (JStr ''yes sir'' :: unit jsval)
         \<lparr>bufferRecords = None, classFilters = None, bufferAdded = True\<rparr>
       = (Inl (Failed (Error (''Invalid countryCode '' @ sq @ ''yes sir'' @ sq
                              @ '', should be two char string''))), pipeline_init)"
proof -
  have h: "\<not> (\<exists>s. (JStr ''yes sir'' :: unit jsval) = JStr s \<and> length s = 2)"
    by simp
  show ?thesis
    using h invalid_countryCode_fails_before_io [OF h]
    by simp
qed

section \<open>Download waves\<close>

lemma waves_Nil [simp]: "waves n [] = []"
  by (simp add: waves.simps)

lemma fillQueue_take:
  "left \<noteq> [] \<Longrightarrow> fillQueue n queue left = (queue @ map Some (take n left), drop n left)"
proof (induction n arbitrary: queue left)
  case 0
  show ?case by simp
next
  case (Suc n)
  then obtain u us where left: "left = u # us" by (cases left) auto
  show ?case
  proof (cases "us = []")
    case True
    with left show ?thesis by simp
  next
    case False
    from Suc.IH [OF False, of "queue @ [Some u]"] False left show ?thesis by simp
  qed
qed

lemma deriveUrls_valid:
  "\<forall>c\<in>set countries. length c = 2 \<Longrightarrow>
     deriveUrls l countries left = Inr (left @ map (countryUrl l) countries)"
  by (induction countries arbitrary: left)
     (simp_all add: countryUrl_def toLocaleUpperCase_def)

lemma concat_waves: "concat (waves n xs) = (if n = 0 then [] else xs)"
proof (induction n xs rule: waves.induct)
  case (1 n xs)
  show ?case
  proof (cases "n = 0 \<or> xs = []")
    case True
    then show ?thesis by (auto simp: waves.simps [of n xs])
  next
    case False
    with 1 show ?thesis by (simp add: waves.simps [of n xs])
  qed
qed

lemma waves_sizes:
  "w \<in> set (waves n xs) \<Longrightarrow> w \<noteq> [] \<and> length w \<le> n"
proof (induction n xs rule: waves.induct)
  case (1 n xs)
  show ?case
  proof (cases "n = 0 \<or> xs = []")
    case True
    with 1(2) show ?thesis by (simp add: waves.simps [of n xs])
  next
    case False
    with 1 show ?thesis by (auto simp: waves.simps [of n xs])
  qed
qed

lemma waves_butlast: "w \<in> set (butlast (waves n xs)) \<Longrightarrow> length w = n"
proof (induction n xs rule: waves.induct)
  case (1 n xs)
  show ?case
  proof (cases "n = 0 \<or> xs = []")
    case True
    with 1(2) show ?thesis by (auto simp: waves.simps [of n xs])
  next
    case False
    then have w: "waves n xs = take n xs # waves n (drop n xs)"
      by (simp add: waves.simps [of n xs])
    show ?thesis
    proof (cases "waves n (drop n xs) = []")
      case True
      with 1(2) w show ?thesis by simp
    next
      case nonempty: False
      then have "drop n xs \<noteq> []" by auto
      then have "length (take n xs) = n" by simp
      with 1 False w nonempty show ?thesis by auto
    qed
  qed
qed

lemma waves_12_by_5:
  assumes "length xs = 12"
  shows "map length (waves 5 xs) = [5, 5, 2]"
proof -
  from assms have a: "xs \<noteq> []" "drop 5 xs \<noteq> []" "drop 5 (drop 5 xs) \<noteq> []"
    "drop 5 (drop 5 (drop 5 xs)) = []"
    by auto
  have "waves 5 xs = [take 5 xs, take 5 (drop 5 xs), take 5 (drop 5 (drop 5 xs))]"
    using a
    by (simp add: waves.simps [of 5 xs] waves.simps [of 5 "drop 5 xs"]
        waves.simps [of 5 "drop 5 (drop 5 xs)"] waves.simps [of 5 "drop 5 (drop 5 (drop 5 xs))"]
        del: drop_drop)
  with assms show ?thesis by simp
qed

lemma waveRun_success:
  "\<forall>w\<in>set ws. fetch (map Some w) = None \<Longrightarrow>
     waveRun fetch opts n ws =
       concat (map (waveEvents opts) ws) @ [Callback (Inr (n + length (concat ws)))]"
  by (induction ws arbitrary: n) (simp_all add: waveEvents_def)

lemma downloadNextFiles_run:
  assumes "0 < limit"
  shows "downloadQueue s = [] \<Longrightarrow> downloadsLeft s \<noteq> [] \<Longrightarrow>
         \<exists>s'. downloadNextFiles fetch limit opts s = Some s'
              \<and> events s' = events s
                   @ waveRun fetch opts (filesProcessed s) (waves (nat limit) (downloadsLeft s))"
proof (induction "length (downloadsLeft s)" arbitrary: s rule: less_induct)
  case less
  let ?n = "nat limit"
  let ?left = "downloadsLeft s"
  let ?w = "take ?n ?left"
  from assms(1) have n: "?n \<noteq> 0" by simp
  from less.prems have fq: "fillQueue ?n (downloadQueue s) ?left = (map Some ?w, drop ?n ?left)"
    by (simp add: fillQueue_take)
  from less.prems n have q: "?w \<noteq> []" by simp
  from less.prems n have w: "waves ?n ?left = ?w # waves ?n (drop ?n ?left)"
    by (simp add: waves.simps [of ?n ?left])
  show ?case
  proof (cases "fetch (map Some ?w)")
    case (Some err)
    show ?thesis
      using q Some
      by (subst downloadNextFiles.simps) (simp add: fq Let_def w)
  next
    case None
    show ?thesis
    proof (cases "drop ?n ?left = []")
      case True
      show ?thesis
        using q True None
        by (subst downloadNextFiles.simps) (simp add: fq Let_def w)
    next
      case False
      define s6 where "s6 = s\<lparr>downloadQueue := [], downloadsLeft := drop ?n ?left,
          filesProcessed := filesProcessed s + length ?w,
          events := events s
            @ (if preDownload opts then [PreDownload (hookArgument (map Some ?w))] else [])
            @ [Started (map Some ?w) (extractV opts)]
            @ (if postDownload opts then [PostDownload (hookArgument (map Some ?w))] else [])\<rparr>"
      from False less.prems n have "length (downloadsLeft s6) < length ?left"
        by (simp add: s6_def)
      from less.hyps [OF this] False
      obtain s' where rec: "downloadNextFiles fetch limit opts s6 = Some s'"
        and ev: "events s' = events s6
                   @ waveRun fetch opts (filesProcessed s6) (waves ?n (downloadsLeft s6))"
        by (auto simp: s6_def)
      have step: "downloadNextFiles fetch limit opts s = downloadNextFiles fetch limit opts s6"
        using q False None
        by (subst downloadNextFiles.simps)
           (auto simp: fq Let_def s6_def
                 intro!: arg_cong [where f = "downloadNextFiles fetch limit opts"])
      from None have "events s' = events s @ waveRun fetch opts (filesProcessed s) (waves ?n ?left)"
        unfolding ev w by (simp add: s6_def)
      with step rec show ?thesis by simp
    qed
  qed
qed

text \<open>
  C8, as the code has it: for a list of countries that is not empty and whose codes
  all have two characters, and a parallelism limit of at least 1 (the option, or 2 when
  it is absent or 0), \<open>downloadGeoNameCountryFiles\<close> returns, and what it did is the
  run of the waves of the derived URLs one after the other: the URLs cut into
  consecutive chunks of the size of the limit, the last chunk holding the remainder, a
  wave being started only when the wave before has resolved. When every wave resolves
  the run ends with the callback getting the number of countries. With a limit of 5
  and 12 countries there are three waves, of 5, 5 and 2 URLs.
\<close>

theorem download_waves:
  assumes valid: "countries \<noteq> []" "\<forall>c\<in>set countries. length c = 2"
    and limit: "limit = (case parallelDownloads opts of None \<Rightarrow> 2
                         | Some n \<Rightarrow> if n \<noteq> 0 then n else 2)" "0 < limit"
  shows "(\<exists>s. downloadGeoNameCountryFiles l fetch countries opts = Some s
            \<and> events s = waveRun fetch opts 0 (waves (nat limit) (map (countryUrl l) countries))
            \<and> ((\<forall>w. fetch w = None) \<longrightarrow>
                 events s = concat (map (waveEvents opts)
                                      (waves (nat limit) (map (countryUrl l) countries)))
                            @ [Callback (Inr (length countries))]))
       \<and> concat (waves (nat limit) (map (countryUrl l) countries)) = map (countryUrl l) countries
       \<and> (\<forall>w\<in>set (butlast (waves (nat limit) (map (countryUrl l) countries))).
             length w = nat limit)
       \<and> (\<forall>w\<in>set (waves (nat limit) (map (countryUrl l) countries)).
             0 < length w \<and> length w \<le> nat limit)
       \<and> (limit = 5 \<and> length countries = 12 \<longrightarrow>
             map length (waves (nat limit) (map (countryUrl l) countries)) = [5, 5, 2])"
proof -
  let ?urls = "map (countryUrl l) countries"
  let ?s0 = "downloader_init\<lparr>downloadsLeft := ?urls\<rparr>"
  from limit(2) have 2: "concat (waves (nat limit) ?urls) = ?urls"
    by (simp add: concat_waves)
  from valid(1) have ne: "downloadQueue ?s0 = []" "downloadsLeft ?s0 \<noteq> []"
    by (simp_all add: downloader_init_def)
  from downloadNextFiles_run [OF limit(2) ne, of fetch opts]
  obtain s where run: "downloadNextFiles fetch limit opts ?s0 = Some s"
    and ev: "events s = waveRun fetch opts 0 (waves (nat limit) ?urls)"
    by (auto simp: downloader_init_def)
  have call: "downloadGeoNameCountryFiles l fetch countries opts = Some s"
    using valid limit(1) run
    by (simp add: downloadGeoNameCountryFiles_def deriveUrls_valid)
  have ok: "events s = concat (map (waveEvents opts) (waves (nat limit) ?urls))
                         @ [Callback (Inr (length countries))]"
    if "\<forall>w. fetch w = None"
  proof -
    have "length (concat (waves (nat limit) ?urls)) = length countries"
      unfolding 2 by simp
    with that show ?thesis
      unfolding ev by (simp add: waveRun_success)
  qed
  from call ev ok
  have 1: "\<exists>s. downloadGeoNameCountryFiles l fetch countries opts = Some s
            \<and> events s = waveRun fetch opts 0 (waves (nat limit) ?urls)
            \<and> ((\<forall>w. fetch w = None) \<longrightarrow>
                 events s = concat (map (waveEvents opts) (waves (nat limit) ?urls))
                            @ [Callback (Inr (length countries))])"
    by blast
  have 3: "\<forall>w\<in>set (butlast (waves (nat limit) ?urls)). length w = nat limit"
    by (auto dest: waves_butlast)
  have 4: "\<forall>w\<in>set (waves (nat limit) ?urls). 0 < length w \<and> length w \<le> nat limit"
    by (auto dest: waves_sizes)
  have 5: "limit = 5 \<and> length countries = 12 \<longrightarrow> map length (waves (nat limit) ?urls) = [5, 5, 2]"
    by (auto simp: waves_12_by_5)
  from 1 2 3 4 5 show ?thesis by blast
qed

text \<open>An instance: twelve countries and \<open>parallelDownloads = 5\<close>.\<close>

theorem download_waves_witness:
  "twelveCountries \<noteq> [] \<and> map length twelveCountries = replicate 12 2
   \<and> (0::int) < 5
   \<and> map_option (\<lambda>s. last (events s))
        (downloadGeoNameCountryFiles (local_init ''/tmp'') (\<lambda>w. None) twelveCountries
           (downloadOptionsWith (Some 5))) = Some (Callback (Inr 12))
   \<and> map length (waves (nat 5) (map (countryUrl (local_init ''/tmp'')) twelveCountries))
       = [5, 5, 2]"
proof -
  have v: "twelveCountries \<noteq> []" "\<forall>c\<in>set twelveCountries. length c = 2"
    "length twelveCountries = 12" "map length twelveCountries = replicate 12 2"
    by (simp_all add: twelveCountries_def eval_nat_numeral)
  have l: "(5::int) = (case parallelDownloads (downloadOptionsWith (Some 5)) of None \<Rightarrow> 2
                         | Some n \<Rightarrow> if n \<noteq> 0 then n else 2)" "(0::int) < 5"
    by (simp_all add: downloadOptionsWith_def)
  from download_waves [OF v(1,2) l, of "local_init ''/tmp''" "\<lambda>w. None"] v(3)
  have "map_option (\<lambda>s. last (events s))
        (downloadGeoNameCountryFiles (local_init ''/tmp'') (\<lambda>w. None) twelveCountries
           (downloadOptionsWith (Some 5))) = Some (Callback (Inr 12))
   \<and> map length (waves (nat 5) (map (countryUrl (local_init ''/tmp'')) twelveCountries))
       = [5, 5, 2]"
    by auto
  with v l show ?thesis by blast
qed

text \<open>
  With a limit below 1 a run of \<open>downloadNextFiles\<close> that starts with an empty queue
  and downloads left takes nothing from them and, when \<open>Promise.all\<close> of no download
  resolves, calls itself in the same situation: it does not return.
\<close>

lemma downloadNextFiles_no_return:
  assumes "downloadNextFiles fetch limit opts s = Some s'"
  shows "\<not> (limit \<le> 0 \<and> fetch [] = None \<and> downloadQueue s = [] \<and> downloadsLeft s \<noteq> [])"
proof (rule downloadNextFiles.raw_induct
    [where P = "\<lambda>fetch limit opts s s'.
                  \<not> (limit \<le> 0 \<and> fetch [] = None \<and> downloadQueue s = []
                     \<and> downloadsLeft s \<noteq> [])", OF _ assms])
  fix f :: "(string option list \<Rightarrow> string option) \<Rightarrow> int \<Rightarrow> downloadOptions \<Rightarrow> downloader
            \<Rightarrow> downloader option"
  fix fetch limit opts s s'
  assume IH: "\<And>fetch limit opts s s'. f fetch limit opts s = Some s' \<Longrightarrow>
                \<not> (limit \<le> 0 \<and> fetch [] = None \<and> downloadQueue s = []
                   \<and> downloadsLeft s \<noteq> [])"
  assume step: "(let (queue, left) = fillQueue (nat limit) (downloadQueue s) (downloadsLeft s);
          s1 = s\<lparr>downloadQueue := queue, downloadsLeft := left\<rparr>;
          s2 = (if length queue = 0
                then s1\<lparr>events := events s1 @ [Callback (Inr (filesProcessed s1))]\<rparr> else s1);
          s3 = (if preDownload opts
                then s2\<lparr>events := events s2 @ [PreDownload (hookArgument queue)]\<rparr> else s2);
          s4 = s3\<lparr>events := events s3 @ [Started queue (extractV opts)]\<rparr>
      in case fetch queue of
           Some err \<Rightarrow>
             Some (s4\<lparr>events := events s4 @
                     [Callback (Inl (Error (''Error downloading '' @ joinQueue '', '' queue
                                            @ '': '' @ err)))]\<rparr>)
         | None \<Rightarrow>
             (let s5 = (if postDownload opts
                        then s4\<lparr>events := events s4 @ [PostDownload (hookArgument queue)]\<rparr>
                        else s4);
                  s6 = s5\<lparr>filesProcessed := filesProcessed s5 + length queue,
                          downloadQueue := []\<rparr>
              in if length left = 0
                 then Some (s6\<lparr>events := events s6 @ [Callback (Inr (filesProcessed s6))]\<rparr>)
                 else f fetch limit opts s6)) = Some s'"
  show "\<not> (limit \<le> 0 \<and> fetch [] = None \<and> downloadQueue s = [] \<and> downloadsLeft s \<noteq> [])"
  proof
    assume a: "limit \<le> 0 \<and> fetch [] = None \<and> downloadQueue s = [] \<and> downloadsLeft s \<noteq> []"
    then have n: "nat limit = 0" by simp
    from step a n have "\<exists>s6. f fetch limit opts s6 = Some s' \<and> downloadQueue s6 = []
        \<and> downloadsLeft s6 = downloadsLeft s"
      by (auto simp: Let_def split: if_splits)
    then obtain s6 where "f fetch limit opts s6 = Some s'" "downloadQueue s6 = []"
      "downloadsLeft s6 = downloadsLeft s" by blast
    with IH [of fetch limit opts s6 s'] a show False by simp
  qed
qed

text \<open>
  With \<open>parallelDownloads = -1\<close> the claim of C8 fails: for the one country \<open>nu\<close> no
  wave is formed and no count is returned, the function never ends (in the code it
  calls the callback with 0 again and again).
\<close>

theorem download_waves_counterexample:
  "downloadGeoNameCountryFiles (local_init ''/tmp'') resolving [''nu'']
     (downloadOptionsWith (Some (- 1))) = None"
proof (rule ccontr)
  assume "downloadGeoNameCountryFiles (local_init ''/tmp'') resolving [''nu'']
     (downloadOptionsWith (Some (- 1))) \<noteq> None"
  then obtain s' where "downloadGeoNameCountryFiles (local_init ''/tmp'') resolving [''nu'']
     (downloadOptionsWith (Some (- 1))) = Some s'" by blast
  then have "downloadNextFiles resolving (- 1) (downloadOptionsWith (Some (- 1)))
      (downloader_init\<lparr>downloadsLeft := [countryUrl (local_init ''/tmp'') ''nu'']\<rparr>) = Some s'"
    by (simp add: downloadGeoNameCountryFiles_def downloadOptionsWith_def countryUrl_def
        toLocaleUpperCase_def)
  from downloadNextFiles_no_return [OF this] show False
    by (simp add: resolving_def downloader_init_def)
qed

section \<open>The type of the bulk directives\<close>

lemma setElasticPath_fields:
  assumes "setElasticPath v l = Inr l'"
  shows "\<exists>p. v = JStr p \<and> length (split CHR ''/'' p) = 2
           \<and> l' = l\<lparr>elasticIndex := split CHR ''/'' p ! 0,
                     elasticPath := Some (split CHR ''/'' p ! 1)\<rparr>"
  using assms
  by (cases v) (auto simp: setElasticPath_def Let_def split: if_splits)

lemma setElasticPath_elasticType: "setElasticPath v l = Inr l' \<Longrightarrow> elasticType l' = elasticType l"
  by (auto dest!: setElasticPath_fields)

lemma setDataPath_elasticType: "setDataPath v l = Inr l' \<Longrightarrow> elasticType l' = elasticType l"
  by (cases v) (auto simp: setDataPath_def)

lemma setElasticClient_elasticType:
  "setElasticClient v l = Inr l' \<Longrightarrow> elasticType l' = elasticType l"
  by (auto simp: setElasticClient_def split: if_splits)

lemma config_elasticType: "config data l = (r, l') \<Longrightarrow> elasticType l' = elasticType l"
proof (induction data arbitrary: l)
  case Nil
  then show ?case by simp
next
  case (Cons kv data)
  obtain key v where kv: "kv = (key, v)" by (cases kv)
  from Cons.prems kv consider "l' = l"
    | l1 where "setElasticPath v l = Inr l1 \<or> setElasticClient v l = Inr l1
                \<or> setDataPath v l = Inr l1" "config data l1 = (r, l')"
    by (auto split: if_splits sum.splits)
  then show ?case
  proof cases
    case 1
    then show ?thesis by simp
  next
    case 2
    from 2(1) have "elasticType l1 = elasticType l"
      by (auto dest: setElasticPath_elasticType setElasticClient_elasticType
          setDataPath_elasticType)
    with Cons.IH [OF 2(2)] show ?thesis by simp
  qed
qed

lemma directive_elasticPath [simp]: "directive (l\<lparr>elasticPath := x\<rparr>) r = directive l r"
  by (simp add: directive_def)

lemma helperAddBuffer_elasticPath:
  "helperAddBuffer (c\<lparr>localV := (localV c)\<lparr>elasticPath := x\<rparr>\<rparr>) s = helperAddBuffer c s"
  by (simp add: helperAddBuffer_def Let_def split: option.splits bulk_reply.splits)

lemma transformer_elasticPath:
  "transformer (c\<lparr>localV := (localV c)\<lparr>elasticPath := x\<rparr>\<rparr>) r s = transformer c r s"
  by (simp add: transformer_eq helperAddBuffer_elasticPath buffered_def)

lemma transformAll_elasticPath:
  "transformAll (c\<lparr>localV := (localV c)\<lparr>elasticPath := x\<rparr>\<rparr>) rs s = transformAll c rs s"
  by (induction rs arbitrary: s) (simp_all add: transformer_elasticPath split: sum.splits)

lemma pipeRecords_elasticPath:
  "pipeRecords (c\<lparr>localV := (localV c)\<lparr>elasticPath := x\<rparr>\<rparr>) rs s = pipeRecords c rs s"
  by (simp add: pipeRecords_def transformAll_elasticPath onFinish_def helperAddBuffer_elasticPath
      split: sum.splits)

lemma closure_elasticPath:
  "closure (l\<lparr>elasticPath := x\<rparr>) t opts = (closure l t opts)\<lparr>localV := (localV (closure l t opts))\<lparr>elasticPath := x\<rparr>\<rparr>"
  by (simp add: closure_def)

lemma addFileToElastic_elasticPath:
  "addFileToElastic (l\<lparr>elasticPath := x\<rparr>) fs countryCode opts = addFileToElastic l fs countryCode opts"
proof -
  have dp: "dataPath (l\<lparr>elasticPath := x\<rparr>) = dataPath l" by simp
  show ?thesis
    unfolding addFileToElastic_def closure_elasticPath pipeRecords_elasticPath dp ..
qed

text \<open>
  C9: in a module state reached from the initial one by a call of \<open>config\<close>
  (whether it throws or not), a successful
  \<open>setElasticPath("index/type")\<close> leaves \<open>elasticType\<close> as it is, which is \<open>geoname\<close>;
  it stores the first segment in \<open>elasticIndex\<close> and the second in the field
  \<open>elasticPath\<close>, and changes neither the client nor the data path. \<open>addFileToElastic\<close>
  does not depend on the field \<open>elasticPath\<close>, and every directive of every body it
  commits carries the index just set and the type \<open>geoname\<close>.
\<close>

theorem setElasticPath_keeps_type:
  assumes "config data (local_init tmpdir) = (r, l)"
    and "setElasticPath (JStr p :: client jsval) l = Inr l'"
  shows "elasticType l' = elasticType l \<and> elasticType l' = ''geoname''
       \<and> elasticIndex l' = split CHR ''/'' p ! 0
       \<and> elasticPath l' = Some (split CHR ''/'' p ! 1)
       \<and> client l' = client l \<and> dataPath l' = dataPath l
       \<and> (\<forall>x. addFileToElastic (l'\<lparr>elasticPath := x\<rparr>) fs countryCode opts
               = addFileToElastic l' fs countryCode opts)
       \<and> (\<forall>b\<in>set (bulkCalls (snd (addFileToElastic l' fs countryCode opts))).
            \<forall>i t d. Directive i t d \<in> set b \<longrightarrow> i = elasticIndex l' \<and> t = ''geoname'')"
proof -
  from config_elasticType [OF assms(1)] have g: "elasticType l = ''geoname''"
    by (simp add: local_init_def)
  from setElasticPath_fields [OF assms(2)]
  have l': "l' = l\<lparr>elasticIndex := split CHR ''/'' p ! 0,
                     elasticPath := Some (split CHR ''/'' p ! 1)\<rparr>"
    by simp
  have "\<forall>b\<in>set (bulkCalls (snd (addFileToElastic l' fs countryCode opts))).
            \<forall>i t d. Directive i t d \<in> set b \<longrightarrow> i = elasticIndex l' \<and> t = ''geoname''"
    using wellPaired_directives [OF addFileToElastic_wellPaired [of l' fs opts countryCode]] g l'
    by auto
  with g l' show ?thesis
    by (simp add: addFileToElastic_elasticPath)
qed

text \<open>An instance: \<open>setElasticPath("geos/geo")\<close> after \<open>config({dataPath: "/var/tmp/"})\<close>.\<close>

theorem setElasticPath_keeps_type_witness:
  "config [(''dataPath'', JStr ''/var/tmp/'')] (local_init ''/tmp'')
     = (None, (local_init ''/tmp'')\<lparr>dataPath := ''/var/tmp/''\<rparr>)
   \<and> setElasticPath (JStr ''geos/geo'' :: client jsval)
         ((local_init ''/tmp'')\<lparr>dataPath := ''/var/tmp/''\<rparr>)
     = Inr ((local_init ''/tmp'')\<lparr>dataPath := ''/var/tmp/'', elasticIndex := ''geos'',
                                   elasticPath := Some ''geo''\<rparr>)
   \<and> elasticType ((local_init ''/tmp'')\<lparr>dataPath := ''/var/tmp/'', elasticIndex := ''geos'',
                                   elasticPath := Some ''geo''\<rparr>) = ''geoname''
   \<and> map length (bulkCalls (snd (addFileToElastic
                 ((local_init ''/tmp'')\<lparr>dataPath := ''/var/tmp/'', elasticIndex := ''geos'',
                                          elasticPath := Some ''geo''\<rparr>)
                 (testFiles exampleRecords) (JStr ''00'' :: unit jsval)
                 (exampleOptions None None)))) = [6]
   \<and> (\<exists>i t. hd (hd (bulkCalls (snd (addFileToElastic
                 ((local_init ''/tmp'')\<lparr>dataPath := ''/var/tmp/'', elasticIndex := ''geos'',
                                          elasticPath := Some ''geo''\<rparr>)
                 (testFiles exampleRecords) (JStr ''00'' :: unit jsval)
                 (exampleOptions None None)))))
             = Directive i t (Some ''4036284'') \<and> i = ''geos'' \<and> t = ''geoname'')"
proof -
  let ?l = "(local_init ''/tmp'')\<lparr>dataPath := ''/var/tmp/''\<rparr>"
  let ?l' = "(local_init ''/tmp'')\<lparr>dataPath := ''/var/tmp/'', elasticIndex := ''geos'',
                                   elasticPath := Some ''geo''\<rparr>"
  let ?calls = "bulkCalls (snd (addFileToElastic ?l' (testFiles exampleRecords)
             (JStr ''00'' :: unit jsval) (exampleOptions None None)))"
  have c: "config [(''dataPath'', JStr ''/var/tmp/'')] (local_init ''/tmp'') = (None, ?l)"
    by (simp add: setDataPath_def)
  have sp: "split CHR ''/'' ''geos/geo'' = [''geos'', ''geo'']"
    by (simp add: Spec2Isabelle.split_def)
  have s: "setElasticPath (JStr ''geos/geo'' :: client jsval) ?l = Inr ?l'"
    by (simp add: setElasticPath_def sp)
  have n: "map length ?calls = [6]"
    by code_simp
  have d: "case hd (hd ?calls) of Directive i t d \<Rightarrow> d = Some ''4036284'' | Document x \<Rightarrow> False"
    by code_simp
  then obtain i t where e: "hd (hd ?calls) = Directive i t (Some ''4036284'')"
    by (auto split: entry.splits)
  from n have "?calls \<noteq> []" "hd ?calls \<noteq> []"
    by (cases ?calls; auto)+
  then have m: "hd ?calls \<in> set ?calls" "hd (hd ?calls) \<in> set (hd ?calls)"
    by simp_all
  from setElasticPath_keeps_type [OF c s, where fs = "testFiles exampleRecords"
      and countryCode = "JStr ''00'' :: unit jsval" and opts = "exampleOptions None None"]
  have ty: "elasticType ?l' = ''geoname''"
    and all: "\<forall>b\<in>set ?calls.
         \<forall>i t d. Directive i t d \<in> set b \<longrightarrow> i = ''geos'' \<and> t = ''geoname''"
    by (simp_all add: sp)
  from all m e have "i = ''geos'' \<and> t = ''geoname''"
    by metis
  with c s n ty e show ?thesis by blast
qed

section \<open>A buffer size of zero\<close>

text \<open>
  C10: with \<open>bufferRecords = 0\<close> an invocation of \<open>addFileToElastic\<close> does exactly
  what it does without the option, and what it does with \<open>bufferRecords = 1000\<close>: the
  threshold the handler compares the buffer length with is \<open>2 \<cdot> 1000\<close>.
\<close>

theorem zero_bufferRecords_is_default:
  "addFileToElastic l fs countryCode (opts\<lparr>bufferRecords := Some 0\<rparr>)
     = addFileToElastic l fs countryCode (opts\<lparr>bufferRecords := None\<rparr>)
   \<and> addFileToElastic l fs countryCode (opts\<lparr>bufferRecords := Some 0\<rparr>)
     = addFileToElastic l fs countryCode (opts\<lparr>bufferRecords := Some 1000\<rparr>)
   \<and> bufferRecordsV (closure l t (opts\<lparr>bufferRecords := Some 0\<rparr>)) = 2 * 1000"
proof -
  have e: "\<And>t. closure l t (opts\<lparr>bufferRecords := Some 0\<rparr>) = closure l t (opts\<lparr>bufferRecords := None\<rparr>)"
    "\<And>t. closure l t (opts\<lparr>bufferRecords := Some 1000\<rparr>) = closure l t (opts\<lparr>bufferRecords := None\<rparr>)"
    by (simp_all add: closure_def)
  have "bufferRecordsV (closure l t (opts\<lparr>bufferRecords := Some 0\<rparr>)) = 2 * 1000"
    by (simp add: closure_def)
  moreover have "addFileToElastic l fs countryCode (opts\<lparr>bufferRecords := Some 0\<rparr>)
     = addFileToElastic l fs countryCode (opts\<lparr>bufferRecords := None\<rparr>)"
    unfolding addFileToElastic_def e ..
  moreover have "addFileToElastic l fs countryCode (opts\<lparr>bufferRecords := Some 0\<rparr>)
     = addFileToElastic l fs countryCode (opts\<lparr>bufferRecords := Some 1000\<rparr>)"
    unfolding addFileToElastic_def e ..
  ultimately show ?thesis by blast
qed

text \<open>
  An instance: three records and \<open>bufferRecords = 0\<close> give one commit of six entries,
  at the end of the stream.
\<close>

theorem zero_bufferRecords_is_default_witness:
  "addFileToElastic (local_init ''/tmp'') (testFiles exampleRecords) (JStr ''00'' :: unit jsval)
      ((exampleOptions (Some 7) None)\<lparr>bufferRecords := Some 0\<rparr>)
     = addFileToElastic (local_init ''/tmp'') (testFiles exampleRecords) (JStr ''00'' :: unit jsval)
      ((exampleOptions (Some 7) None)\<lparr>bufferRecords := None\<rparr>)
   \<and> map length (bulkCalls (snd (addFileToElastic (local_init ''/tmp'') (testFiles exampleRecords)
        (JStr ''00'' :: unit jsval) ((exampleOptions (Some 7) None)\<lparr>bufferRecords := Some 0\<rparr>))))
       = [6]"
proof -
  have "map length (bulkCalls (snd (addFileToElastic (local_init ''/tmp'') (testFiles exampleRecords)
        (JStr ''00'' :: unit jsval) ((exampleOptions (Some 7) None)\<lparr>bufferRecords := Some 0\<rparr>))))
       = [6]"
    by code_simp
  with zero_bufferRecords_is_default [of "local_init ''/tmp''" "testFiles exampleRecords"
      "JStr ''00'' :: unit jsval" "exampleOptions (Some 7) None" True]
  show ?thesis by blast
qed

end
